theory Spec2Isabelle
  imports Complex_Main "HOL-Library.Multiset" "HOL-Library.Char_ord" "HOL-Library.List_Lexorder"
begin

section \<open>Column names\<close>

text \<open>
  Column names are Python strings. They are modelled as lists of characters, and the
  case conversions of \<^verbatim>\<open>str.title\<close> are modelled on the ASCII letters: any other
  character is uncased, is left as it is and ends a word.
\<close>

definition lower_letters :: string where
  "lower_letters = ''abcdefghijklmnopqrstuvwxyz''"

definition upper_letters :: string where
  "upper_letters = ''ABCDEFGHIJKLMNOPQRSTUVWXYZ''"

definition is_cased :: "char \<Rightarrow> bool" where
  "is_cased c = (c \<in> set lower_letters \<or> c \<in> set upper_letters)"

definition to_upper :: "char \<Rightarrow> char" where
  "to_upper c = (case map_of (zip lower_letters upper_letters) c of Some u \<Rightarrow> u | None \<Rightarrow> c)"

definition to_lower :: "char \<Rightarrow> char" where
  "to_lower c = (case map_of (zip upper_letters lower_letters) c of Some l \<Rightarrow> l | None \<Rightarrow> c)"

text \<open>
  \<^verbatim>\<open>str.title()\<close> walks the string once. A cased character that follows an uncased one
  (or starts the string) is put in upper case, a cased character that follows a cased one
  is put in lower case, every other character is copied. The flag is
  "the previous character was cased".
\<close>

fun title_from :: "bool \<Rightarrow> string \<Rightarrow> string" where
  "title_from prev [] = []"
| "title_from prev (c # cs) =
     (if is_cased c then (if prev then to_lower c else to_upper c) # title_from True cs
      else c # title_from False cs)"

definition title :: "string \<Rightarrow> string" where
  "title s = title_from False s"

text \<open>\<^verbatim>\<open>column.split('/')[0]\<close>: the part of the name before the first slash.\<close>

definition split_slash_head :: "string \<Rightarrow> string" where
  "split_slash_head s = takeWhile (\<lambda>c. c \<noteq> CHR ''/'') s"

text \<open>\<^verbatim>\<open>s.replace(' ', '')\<close>: every space character is deleted.\<close>

definition remove_spaces :: "string \<Rightarrow> string" where
  "remove_spaces s = filter (\<lambda>c. c \<noteq> CHR '' '') s"

text \<open>
  \<^verbatim>\<open>
  def clean_column_name(self, column):
      if column == 'ResearchId':
          return column
      column = column.split('/')[0]
      return column.title().replace(' ', '')
  \<close>
  The method is the same in CWPreprocessing and in DAFunction.
\<close>

definition clean_column_name :: "string \<Rightarrow> string" where
  "clean_column_name column =
     (if column = ''ResearchId'' then column
      else remove_spaces (title (split_slash_head column)))"

section \<open>Data frames\<close>

text \<open>
  A cell of a pandas frame is a number, a string or the missing value (\<^verbatim>\<open>NaN\<close>,
  \<^verbatim>\<open>None\<close>). Numbers are modelled as reals: the rounding of floating-point
  arithmetic and the values \<^verbatim>\<open>inf\<close> and \<^verbatim>\<open>-inf\<close> are outside this model.
  A frame is its list of column labels and its rows, each row a list of cells in column
  order. pandas keeps frames rectangular; labels may repeat.
\<close>

datatype cell = Num real | Str string | NaN

record frame =
  columns :: "string list"
  rows :: "cell list list"

datatype error = KeyError string | TypeError | ValueError | OperationalError | NonFinite

definition rectangular :: "frame \<Rightarrow> bool" where
  "rectangular df = list_all (\<lambda>r. length r = length (columns df)) (rows df)"

text \<open>The positions at which a label occurs among the columns.\<close>

definition positions :: "string \<Rightarrow> string list \<Rightarrow> nat list" where
  "positions col cols = filter (\<lambda>j. cols ! j = col) [0..<length cols]"

text \<open>\<^verbatim>\<open>df[col] = f(df[col])\<close> for a column at position \<open>j\<close>, cell by cell.\<close>

definition map_column :: "nat \<Rightarrow> (cell \<Rightarrow> cell) \<Rightarrow> frame \<Rightarrow> frame" where
  "map_column j f df = df\<lparr>rows := map (\<lambda>r. r[j := f (r ! j)]) (rows df)\<rparr>"

text \<open>\<^verbatim>\<open>series.replace('-', np.nan)\<close>: a cell that is exactly the string \<open>-\<close> becomes missing.\<close>

definition replace_dash :: "cell \<Rightarrow> cell" where
  "replace_dash c = (if c = Str ''-'' then NaN else c)"

text \<open>
  \<^verbatim>\<open>pd.to_numeric(series, errors='coerce')\<close>: a number stays, a string is parsed, and a
  string that does not parse becomes missing. The parser of pandas is a parameter \<open>num\<close>
  of the model: \<open>num s\<close> is the number the string \<open>s\<close> denotes, if any.
\<close>

definition to_numeric :: "(string \<Rightarrow> real option) \<Rightarrow> cell \<Rightarrow> cell" where
  "to_numeric num c =
     (case c of Num x \<Rightarrow> Num x
      | Str s \<Rightarrow> (case num s of Some x \<Rightarrow> Num x | None \<Rightarrow> NaN)
      | NaN \<Rightarrow> NaN)"

text \<open>\<^verbatim>\<open>series.fillna(v)\<close>.\<close>

definition fillna :: "real \<Rightarrow> cell \<Rightarrow> cell" where
  "fillna v c = (case c of NaN \<Rightarrow> Num v | _ \<Rightarrow> c)"

text \<open>\<^verbatim>\<open>'Grade' in col\<close> and \<^verbatim>\<open>col.startswith('Q')\<close>.\<close>

definition starts_with :: "string \<Rightarrow> string \<Rightarrow> bool" where
  "starts_with p s = (take (length p) s = p)"

fun contains :: "string \<Rightarrow> string \<Rightarrow> bool" where
  "contains sub [] = (sub = [])"
| "contains sub (c # cs) = (starts_with sub (c # cs) \<or> contains sub cs)"

subsection \<open>Sorting by a column\<close>

text \<open>
  \<^verbatim>\<open>df.sort_values(by=col, ascending=False)\<close> orders the rows by the cells of one column,
  largest first, with the rows whose cell is missing last (\<^verbatim>\<open>na_position='last'\<close>).
  Numbers are ordered as numbers. A column that holds strings and no number is ordered
  as text, by the code points of the characters, as Python orders strings. Ordering a
  string against a number raises \<^verbatim>\<open>TypeError\<close>.

  \<open>cell_ge a b\<close>: the cell \<open>a\<close> may stand before the cell \<open>b\<close> in that order.
\<close>

definition is_Str :: "cell \<Rightarrow> bool" where
  "is_Str c = (case c of Str s \<Rightarrow> True | _ \<Rightarrow> False)"

definition is_Num :: "cell \<Rightarrow> bool" where
  "is_Num c = (case c of Num x \<Rightarrow> True | _ \<Rightarrow> False)"

definition cell_ge :: "cell \<Rightarrow> cell \<Rightarrow> bool" where
  "cell_ge a b =
     (case b of
        NaN \<Rightarrow> True
      | Num y \<Rightarrow> (case a of Num x \<Rightarrow> y \<le> x | _ \<Rightarrow> False)
      | Str t \<Rightarrow> (case a of Str s \<Rightarrow> t \<le> s | _ \<Rightarrow> False))"

text \<open>
  The source does not choose the sorting algorithm, and the default of pandas
  (\<^verbatim>\<open>kind='quicksort'\<close>) is documented as not stable. The sorting function is therefore
  a parameter \<open>srt\<close> of the model: it is given the key of a row and the rows. What every
  algorithm guarantees is \<open>sorts_descending\<close> on keys that are numbers or missing, and
  \<open>sorts_text\<close> on keys that are strings or missing: the result holds the same rows, in
  descending order. \<open>stable\<close> is the additional property of keeping rows with equal keys
  in their original order, which pandas does not promise for its default.
\<close>

type_synonym sorter = "(cell list \<Rightarrow> cell) \<Rightarrow> cell list list \<Rightarrow> cell list list"

definition sorts_descending :: "sorter \<Rightarrow> bool" where
  "sorts_descending srt =
     (\<forall>key rs. \<not> list_ex (\<lambda>r. is_Str (key r)) rs \<longrightarrow>
        mset (srt key rs) = mset rs
        \<and> sorted_wrt (\<lambda>a b. cell_ge (key a) (key b)) (srt key rs))"

definition sorts_text :: "sorter \<Rightarrow> bool" where
  "sorts_text srt =
     (\<forall>key rs. \<not> list_ex (\<lambda>r. is_Num (key r)) rs \<longrightarrow>
        mset (srt key rs) = mset rs
        \<and> sorted_wrt (\<lambda>a b. cell_ge (key a) (key b)) (srt key rs))"

definition stable :: "sorter \<Rightarrow> bool" where
  "stable srt =
     (\<forall>key rs k. filter (\<lambda>r. key r = k) (srt key rs) = filter (\<lambda>r. key r = k) rs)"

text \<open>
  Two sorting functions that meet \<open>sorts_descending\<close> and \<open>sorts_text\<close>. Insertion sort,
  which puts a row before the rows sorted so far that it may stand before, is stable.
  Insertion sort of the rows taken from the last to the first is not: it leaves rows
  with equal keys in the reverse of their original order.
\<close>

fun insert_desc :: "('a \<Rightarrow> cell) \<Rightarrow> 'a \<Rightarrow> 'a list \<Rightarrow> 'a list" where
  "insert_desc key x [] = [x]"
| "insert_desc key x (y # ys) =
     (if cell_ge (key x) (key y) then x # y # ys else y # insert_desc key x ys)"

definition stable_sort_desc :: sorter where
  "stable_sort_desc key rs = foldr (insert_desc key) rs []"

definition reversing_sort_desc :: sorter where
  "reversing_sort_desc key rs = stable_sort_desc key (rev rs)"

text \<open>
  A missing label raises \<^verbatim>\<open>KeyError\<close>, a label that occurs more than once raises
  \<^verbatim>\<open>ValueError\<close>, a column that holds both a string and a number raises \<^verbatim>\<open>TypeError\<close>.
\<close>

definition sort_values_desc :: "sorter \<Rightarrow> string \<Rightarrow> frame \<Rightarrow> error + frame" where
  "sort_values_desc srt label df =
     (case positions label (columns df) of
        [] \<Rightarrow> Inl (KeyError label)
      | [j] \<Rightarrow>
          if list_ex (\<lambda>r. is_Str (r ! j)) (rows df) \<and> list_ex (\<lambda>r. is_Num (r ! j)) (rows df)
          then Inl TypeError
          else Inr (df\<lparr>rows := srt (\<lambda>r. r ! j) (rows df)\<rparr>)
      | _ \<Rightarrow> Inl ValueError)"

subsection \<open>Dropping duplicates\<close>

text \<open>
  \<^verbatim>\<open>df.drop_duplicates(subset=[col], keep='first')\<close> walks the rows in order and keeps a
  row when no earlier row has the same value under the label; missing values count as
  equal to each other. When the label occurs at several positions the cells at all of
  them are compared. A frame that is empty, with no row or with no column, is returned as
  it is before the label is looked at; otherwise a missing label raises \<^verbatim>\<open>KeyError\<close>.
\<close>

fun keep_first :: "('a \<Rightarrow> 'k) \<Rightarrow> 'k list \<Rightarrow> 'a list \<Rightarrow> 'a list" where
  "keep_first f seen [] = []"
| "keep_first f seen (x # xs) =
     (if f x \<in> set seen then keep_first f seen xs
      else x # keep_first f (f x # seen) xs)"

definition drop_duplicates :: "string \<Rightarrow> frame \<Rightarrow> error + frame" where
  "drop_duplicates label df =
     (if rows df = [] \<or> columns df = [] then Inr df
      else (case positions label (columns df) of
              [] \<Rightarrow> Inl (KeyError label)
            | js \<Rightarrow> Inr (df\<lparr>rows := keep_first (\<lambda>r. map (\<lambda>j. r ! j) js) [] (rows df)\<rparr>)))"

text \<open>\<^verbatim>\<open>df.drop(col, axis=1)\<close> removes every column that carries the label.\<close>

definition drop_label :: "string \<Rightarrow> frame \<Rightarrow> frame" where
  "drop_label col df =
     \<lparr>columns = filter (\<lambda>c. c \<noteq> col) (columns df),
      rows = map (\<lambda>r. map snd (filter (\<lambda>cv. fst cv \<noteq> col) (zip (columns df) r))) (rows df)\<rparr>"

section \<open>The cleaning methods of CWPreprocessing and DAFunction\<close>

text \<open>
  The two classes hold the same methods, statement for statement. Each method changes
  the frame object it is given and returns it; the functions of this section give the
  frame that the object holds afterwards, or the exception raised.

  \<^verbatim>\<open>df.columns = [self.clean_column_name(col) for col in df.columns]\<close>
\<close>

definition clean_column_names :: "frame \<Rightarrow> frame" where
  "clean_column_names df = df\<lparr>columns := map clean_column_name (columns df)\<rparr>"

text \<open>
  \<^verbatim>\<open>
  df.sort_values(by='Grade', ascending=False, inplace=True)
  df.drop_duplicates(subset=['ResearchId'], keep='first', inplace=True)
  \<close>
\<close>

definition drop_duplicate_research_ids :: "sorter \<Rightarrow> frame \<Rightarrow> error + frame" where
  "drop_duplicate_research_ids srt df =
     (case sort_values_desc srt ''Grade'' df of
        Inl e \<Rightarrow> Inl e
      | Inr df1 \<Rightarrow> drop_duplicates ''ResearchId'' df1)"

text \<open>
  \<^verbatim>\<open>
  for col in columns_to_drop:
      if col in df.columns:
          df.drop(col, axis=1, inplace=True)
  \<close>
\<close>

fun drop_unnecessary_columns :: "frame \<Rightarrow> string list \<Rightarrow> frame" where
  "drop_unnecessary_columns df [] = df"
| "drop_unnecessary_columns df (col # columns_to_drop) =
     drop_unnecessary_columns
       (if col \<in> set (columns df) then drop_label col df else df) columns_to_drop"

text \<open>
  The loop of \<^verbatim>\<open>process_dataframe\<close> over the selected labels:
  \<^verbatim>\<open>
  for col in grade_q_columns:
      df[col] = df[col].replace('-', np.nan)
      df[col] = pd.to_numeric(df[col], errors='coerce').fillna(0.0)
  \<close>
  When the label occurs twice \<^verbatim>\<open>df[col]\<close> is a frame, not a column, and
  \<^verbatim>\<open>pd.to_numeric\<close> raises \<^verbatim>\<open>TypeError\<close>.
\<close>

fun coerce_columns :: "(string \<Rightarrow> real option) \<Rightarrow> string list \<Rightarrow> frame \<Rightarrow> error + frame" where
  "coerce_columns num [] df = Inr df"
| "coerce_columns num (col # cols) df =
     (case positions col (columns df) of
        [] \<Rightarrow> Inl (KeyError col)
      | [j] \<Rightarrow>
          coerce_columns num cols
            (map_column j (\<lambda>c. fillna 0 (to_numeric num c)) (map_column j replace_dash df))
      | _ \<Rightarrow> Inl TypeError)"

text \<open>\<^verbatim>\<open>[col for col in df.columns if 'Grade' in col or col.startswith('Q')]\<close>\<close>

definition grade_q_columns :: "frame \<Rightarrow> string list" where
  "grade_q_columns df =
     filter (\<lambda>col. contains ''Grade'' col \<or> starts_with ''Q'' col) (columns df)"

text \<open>
  \<^verbatim>\<open>
  def process_dataframe(self, df):
      df = df.copy()
      df = self.clean_column_names(df)
      grade_q_columns = [col for col in df.columns if 'Grade' in col or col.startswith('Q')]
      for col in grade_q_columns:
          ...
      df = self.drop_duplicate_research_ids(df)
      df = self.drop_unnecessary_columns(df, ['State', 'TimeTaken'])
      return df
  \<close>
  \<open>coerced\<close> is the frame after the loop, the one handed to the deduplication.
\<close>

definition coerced :: "(string \<Rightarrow> real option) \<Rightarrow> frame \<Rightarrow> error + frame" where
  "coerced num df =
     (let df1 = clean_column_names df in coerce_columns num (grade_q_columns df1) df1)"

definition process_dataframe :: "sorter \<Rightarrow> (string \<Rightarrow> real option) \<Rightarrow> frame \<Rightarrow> error + frame" where
  "process_dataframe srt num df =
     (case coerced num df of
        Inl e \<Rightarrow> Inl e
      | Inr df2 \<Rightarrow>
          (case drop_duplicate_research_ids srt df2 of
             Inl e \<Rightarrow> Inl e
           | Inr df3 \<Rightarrow> Inr (drop_unnecessary_columns df3 [''State'', ''TimeTaken''])))"

text \<open>
  The value that a cell of a selected column holds after the two assignments of the loop,
  and the relation between a frame and the frame the loop leaves: the cells of the
  columns labelled in \<open>cols\<close> hold that value, every other cell is as it was.
\<close>

definition coerce_cell :: "(string \<Rightarrow> real option) \<Rightarrow> cell \<Rightarrow> cell" where
  "coerce_cell num c = fillna 0 (to_numeric num (replace_dash c))"

definition cells_coerced :: "(string \<Rightarrow> real option) \<Rightarrow> string list \<Rightarrow> frame \<Rightarrow> frame \<Rightarrow> bool" where
  "cells_coerced num cols df df' =
     (columns df' = columns df \<and> length (rows df') = length (rows df)
      \<and> (\<forall>i<length (rows df). length (rows df' ! i) = length (rows df ! i)
           \<and> (\<forall>j<length (columns df). j < length (rows df ! i) \<longrightarrow>
                rows df' ! i ! j =
                  (if columns df ! j \<in> set cols then coerce_cell num (rows df ! i ! j)
                   else rows df ! i ! j))))"

subsection \<open>The order of operations of the specification\<close>

text \<open>
  Written from the words of the specification, not from the source, for comparison with
  \<open>process_dataframe\<close>: "coerce for sort purposes, dedupe, finalize zero-fill". The
  selected columns are made numeric with the missing values kept, the frame is
  deduplicated, and only then are the missing values replaced by \<open>0.0\<close>.
\<close>

fun reference_coerce_to_null :: "(string \<Rightarrow> real option) \<Rightarrow> string list \<Rightarrow> frame \<Rightarrow> error + frame" where
  "reference_coerce_to_null num [] df = Inr df"
| "reference_coerce_to_null num (col # cols) df =
     (case positions col (columns df) of
        [] \<Rightarrow> Inl (KeyError col)
      | [j] \<Rightarrow>
          reference_coerce_to_null num cols
            (map_column j (to_numeric num) (map_column j replace_dash df))
      | _ \<Rightarrow> Inl TypeError)"

fun reference_zero_fill :: "string list \<Rightarrow> frame \<Rightarrow> error + frame" where
  "reference_zero_fill [] df = Inr df"
| "reference_zero_fill (col # cols) df =
     (case positions col (columns df) of
        [] \<Rightarrow> Inl (KeyError col)
      | [j] \<Rightarrow> reference_zero_fill cols (map_column j (fillna 0) df)
      | _ \<Rightarrow> Inl TypeError)"

definition reference_process :: "sorter \<Rightarrow> (string \<Rightarrow> real option) \<Rightarrow> frame \<Rightarrow> error + frame" where
  "reference_process srt num df =
     (let df1 = clean_column_names df; cols = grade_q_columns df1 in
      case reference_coerce_to_null num cols df1 of
        Inl e \<Rightarrow> Inl e
      | Inr df2 \<Rightarrow>
          (case drop_duplicate_research_ids srt df2 of
             Inl e \<Rightarrow> Inl e
           | Inr df3 \<Rightarrow>
               (case reference_zero_fill cols df3 of
                  Inl e \<Rightarrow> Inl e
                | Inr df4 \<Rightarrow> Inr (drop_unnecessary_columns df4 [''State'', ''TimeTaken'']))))"

section \<open>The methods on a store of frame objects\<close>

text \<open>
  The methods work on frame objects: each one changes the object it is given
  (\<^verbatim>\<open>inplace=True\<close>, assignment to \<^verbatim>\<open>df.columns\<close> and to \<^verbatim>\<open>df[col]\<close>) and returns the
  same object. To follow which object is changed, a store holds the frame objects and a
  reference is the index of an object in the store. \<^verbatim>\<open>df.copy()\<close> is a deep copy: it
  allocates a new object with the same labels and cells. An exception leaves the store as
  it is at the raising statement.
\<close>

type_synonym store = "frame list"

definition copy :: "nat \<Rightarrow> store \<Rightarrow> nat \<times> store" where
  "copy df s = (length s, s @ [s ! df])"

definition clean_column_names_in :: "nat \<Rightarrow> store \<Rightarrow> nat \<times> store" where
  "clean_column_names_in df s = (df, s[df := clean_column_names (s ! df)])"

fun coerce_columns_in ::
  "(string \<Rightarrow> real option) \<Rightarrow> string list \<Rightarrow> nat \<Rightarrow> store \<Rightarrow> (error + unit) \<times> store" where
  "coerce_columns_in num [] df s = (Inr (), s)"
| "coerce_columns_in num (col # cols) df s =
     (case positions col (columns (s ! df)) of
        [] \<Rightarrow> (Inl (KeyError col), s)
      | [j] \<Rightarrow>
          (let s1 = s[df := map_column j replace_dash (s ! df)];
               s2 = s1[df := map_column j (\<lambda>c. fillna 0 (to_numeric num c)) (s1 ! df)]
           in coerce_columns_in num cols df s2)
      | _ \<Rightarrow> (Inl TypeError, s))"

definition drop_duplicate_research_ids_in ::
  "sorter \<Rightarrow> nat \<Rightarrow> store \<Rightarrow> (error + nat) \<times> store" where
  "drop_duplicate_research_ids_in srt df s =
     (case sort_values_desc srt ''Grade'' (s ! df) of
        Inl e \<Rightarrow> (Inl e, s)
      | Inr sorted_df \<Rightarrow>
          (let s1 = s[df := sorted_df] in
           case drop_duplicates ''ResearchId'' (s1 ! df) of
             Inl e \<Rightarrow> (Inl e, s1)
           | Inr kept \<Rightarrow> (Inr df, s1[df := kept])))"

fun drop_unnecessary_columns_in :: "nat \<Rightarrow> string list \<Rightarrow> store \<Rightarrow> nat \<times> store" where
  "drop_unnecessary_columns_in df [] s = (df, s)"
| "drop_unnecessary_columns_in df (col # columns_to_drop) s =
     drop_unnecessary_columns_in df columns_to_drop
       (if col \<in> set (columns (s ! df)) then s[df := drop_label col (s ! df)] else s)"

definition process_dataframe_in ::
  "sorter \<Rightarrow> (string \<Rightarrow> real option) \<Rightarrow> nat \<Rightarrow> store \<Rightarrow> (error + nat) \<times> store" where
  "process_dataframe_in srt num df0 s0 =
     (case copy df0 s0 of (df, s1) \<Rightarrow>
      case clean_column_names_in df s1 of (df, s2) \<Rightarrow>
      case coerce_columns_in num (grade_q_columns (s2 ! df)) df s2 of
        (Inl e, s3) \<Rightarrow> (Inl e, s3)
      | (Inr u, s3) \<Rightarrow>
          (case drop_duplicate_research_ids_in srt df s3 of
             (Inl e, s4) \<Rightarrow> (Inl e, s4)
           | (Inr df, s4) \<Rightarrow>
               (case drop_unnecessary_columns_in df [''State'', ''TimeTaken''] s4 of
                  (df, s5) \<Rightarrow> (Inr df, s5))))"

text \<open>A step that changes at most the object at reference \<open>r\<close>.\<close>

definition updates_only :: "nat \<Rightarrow> store \<Rightarrow> store \<Rightarrow> bool" where
  "updates_only r s s' = (length s' = length s \<and> (\<forall>i<length s. i \<noteq> r \<longrightarrow> s' ! i = s ! i))"

section \<open>The threshold filter of underperformingStudent\<close>

text \<open>
  \<^verbatim>\<open>
  def drop_rows_above_threshold(self, df):
      grade_columns = df.filter(like='Grade').columns
      mask = (df[grade_columns] >= 1) & (df[grade_columns] <= 49)
      mask = mask.sum(axis=1) >= 3
      df = df[mask]
      return df
  \<close>
  \<^verbatim>\<open>df.filter(like='Grade').columns\<close> are the labels that contain \<open>Grade\<close>, and
  \<^verbatim>\<open>df[labels]\<close> selects, label by label, every column that carries the label. A missing
  value compares false with every number; comparing a string with a number raises
  \<^verbatim>\<open>TypeError\<close>. The bounds 1 and 49 and the count 3 are constants of the source.
\<close>

definition grade_columns :: "frame \<Rightarrow> string list" where
  "grade_columns df = filter (contains ''Grade'') (columns df)"

definition selected_positions :: "string list \<Rightarrow> frame \<Rightarrow> nat list" where
  "selected_positions labels df = concat (map (\<lambda>c. positions c (columns df)) labels)"

definition in_band :: "cell \<Rightarrow> bool" where
  "in_band c = (case c of Num x \<Rightarrow> 1 \<le> x \<and> x \<le> 49 | _ \<Rightarrow> False)"

definition drop_rows_above_threshold :: "frame \<Rightarrow> error + frame" where
  "drop_rows_above_threshold df =
     (let js = selected_positions (grade_columns df) df in
      if list_ex (\<lambda>r. list_ex (\<lambda>j. is_Str (r ! j)) js) (rows df) then Inl TypeError
      else Inr (df\<lparr>rows := filter (\<lambda>r. 3 \<le> length (filter (\<lambda>j. in_band (r ! j)) js)) (rows df)\<rparr>))"

text \<open>No cell of a column whose label contains \<open>Grade\<close> is a string.\<close>

definition grade_cells_numeric :: "frame \<Rightarrow> bool" where
  "grade_cells_numeric df =
     list_all (\<lambda>r. list_all (\<lambda>j. \<not> (contains ''Grade'' (columns df ! j) \<and> is_Str (r ! j)))
                 [0..<length (columns df)]) (rows df)"

section \<open>Grade standardisation\<close>

text \<open>
  \<^verbatim>\<open>
  def standardise_grade(self, df):
      df_copy = df.copy()
      df_copy['Grade'] = pd.to_numeric(df_copy['Grade'], errors='coerce')
      df_copy = df_copy[df_copy['Grade'].notna()]
      max_grade = df_copy['Grade'].max()
      df_copy['Grade'] = (df_copy['Grade'] / max_grade) * 100
      return df_copy
  \<close>
  When no row is left the maximum is missing and the empty frame is returned. When the
  maximum is zero the floating-point division gives \<^verbatim>\<open>nan\<close> for a grade of zero, a
  missing value, and \<^verbatim>\<open>-inf\<close> for a negative grade, which the real numbers of this
  model do not have: the model reports \<open>NonFinite\<close> there, although the source raises
  nothing.
\<close>

definition grade_value :: "cell \<Rightarrow> real" where
  "grade_value c = (case c of Num x \<Rightarrow> x | _ \<Rightarrow> 0)"

definition scale_cell :: "real \<Rightarrow> cell \<Rightarrow> cell" where
  "scale_cell max_grade c = (case c of Num x \<Rightarrow> Num ((x / max_grade) * 100) | _ \<Rightarrow> c)"

definition standardise_grade :: "(string \<Rightarrow> real option) \<Rightarrow> frame \<Rightarrow> error + frame" where
  "standardise_grade num df =
     (case positions ''Grade'' (columns df) of
        [] \<Rightarrow> Inl (KeyError ''Grade'')
      | [j] \<Rightarrow>
          (let df1 = map_column j (to_numeric num) df;
               df2 = df1\<lparr>rows := filter (\<lambda>r. r ! j \<noteq> NaN) (rows df1)\<rparr>;
               grades = map (\<lambda>r. grade_value (r ! j)) (rows df2)
           in if grades = [] then Inr df2
              else (let max_grade = Max (set grades)
                    in if max_grade = 0
                       then (if list_all (\<lambda>x. x = 0) grades
                             then Inr (map_column j (\<lambda>c. NaN) df2)
                             else Inl NonFinite)
                       else Inr (map_column j (scale_cell max_grade) df2)))
      | _ \<Rightarrow> Inl TypeError)"

section \<open>Tables of the database\<close>

text \<open>
  A value stored in an SQLite table is \<^verbatim>\<open>NULL\<close>, a number or a text. A table is its list
  of column names and its rows; a row holds one value for each column, and a value that
  a row lacks reads as \<^verbatim>\<open>NULL\<close>. The connection is modelled by the tables it gives access
  to, by name. SQLite compares identifiers without regard to the case of ASCII letters.
  A query that names a table or a column that does not exist raises
  \<^verbatim>\<open>sqlite3.OperationalError\<close>.
\<close>

datatype sqlval = SNull | SNum real | SText string

record sql_table =
  col_names :: "string list"
  sql_rows :: "sqlval list list"

type_synonym database = "string \<Rightarrow> sql_table option"

definition sql_name :: "string \<Rightarrow> string" where
  "sql_name s = map to_lower s"

definition find_column :: "string \<Rightarrow> sql_table \<Rightarrow> nat option" where
  "find_column c t =
     (case positions (sql_name c) (map sql_name (col_names t)) of [] \<Rightarrow> None | j # js \<Rightarrow> Some j)"

definition sql_cell :: "sqlval list \<Rightarrow> nat \<Rightarrow> sqlval" where
  "sql_cell r j = (if j < length r then r ! j else SNull)"

text \<open>\<^verbatim>\<open>SELECT a, b FROM t\<close>: the values of two columns, row by row.\<close>

definition select2 :: "sql_table \<Rightarrow> string \<Rightarrow> string \<Rightarrow> error + (sqlval \<times> sqlval) list" where
  "select2 t a b =
     (case find_column a t of
        None \<Rightarrow> Inl OperationalError
      | Some i \<Rightarrow>
          (case find_column b t of
             None \<Rightarrow> Inl OperationalError
           | Some j \<Rightarrow> Inr (map (\<lambda>r. (sql_cell r i, sql_cell r j)) (sql_rows t))))"

text \<open>The comparison \<open>=\<close> of SQL is not true when a side is \<^verbatim>\<open>NULL\<close>.\<close>

definition sql_eq :: "sqlval \<Rightarrow> sqlval \<Rightarrow> bool" where
  "sql_eq a b = (a \<noteq> SNull \<and> a = b)"

section \<open>The consolidated grades of underperformingStudent\<close>

text \<open>
  \<^verbatim>\<open>create_dataframe\<close> runs one query: the \<^verbatim>\<open>UNION\<close> of the \<open>ResearchId\<close> columns of
  the six tables (duplicates removed, \<^verbatim>\<open>NULL\<close> counted once), joined by
  \<^verbatim>\<open>LEFT JOIN ... ON ResearchIds.ResearchId = TestN.ResearchId\<close> with each table in turn,
  selecting \<^verbatim>\<open>TestN.Grade AS Grade_TestN\<close>; then \<^verbatim>\<open>df.set_index('ResearchId')\<close>.
  A left join keeps a row that has no partner, with \<^verbatim>\<open>NULL\<close> for the joined column, and
  repeats a row that has several partners. SQL does not fix the order of the rows of
  the result; the model lists the identifiers in the order \<open>remdups\<close> gives.
\<close>

definition test_names :: "string list" where
  "test_names = [''Test1'', ''Test2'', ''Test3'', ''Test4'', ''Mocktest'', ''Sumtest'']"

record consolidated =
  index_name :: string
  grade_labels :: "string list"
  entries :: "(sqlval \<times> sqlval list) list"

fun collect :: "(error + 'a) list \<Rightarrow> error + 'a list" where
  "collect [] = Inr []"
| "collect (x # xs) =
     (case x of
        Inl e \<Rightarrow> Inl e
      | Inr a \<Rightarrow> (case collect xs of Inl e \<Rightarrow> Inl e | Inr as \<Rightarrow> Inr (a # as)))"

definition research_ids :: "(sqlval \<times> sqlval) list list \<Rightarrow> sqlval list" where
  "research_ids tables = remdups (concat (map (map fst) tables))"

definition left_join ::
  "(sqlval \<times> sqlval list) list \<Rightarrow> (sqlval \<times> sqlval) list \<Rightarrow> (sqlval \<times> sqlval list) list" where
  "left_join acc t =
     concat (map (\<lambda>(i, gs).
        case filter (\<lambda>(j, g). sql_eq i j) t of
          [] \<Rightarrow> [(i, gs @ [SNull])]
        | ms \<Rightarrow> map (\<lambda>(j, g). (i, gs @ [g])) ms) acc)"

definition create_dataframe :: "database \<Rightarrow> error + consolidated" where
  "create_dataframe db =
     (case those (map db test_names) of
        None \<Rightarrow> Inl OperationalError
      | Some ts \<Rightarrow>
          (case collect (map (\<lambda>t. select2 t ''ResearchId'' ''Grade'') ts) of
             Inl e \<Rightarrow> Inl e
           | Inr tables \<Rightarrow>
               Inr \<lparr>index_name = ''ResearchId'',
                    grade_labels = map (\<lambda>n. ''Grade_'' @ n) test_names,
                    entries = foldl left_join (map (\<lambda>i. (i, [])) (research_ids tables)) tables\<rparr>))"

text \<open>The cell a left join adds for the identifier \<open>i\<close> when it has at most one partner.\<close>

definition joined_grade :: "sqlval \<Rightarrow> (sqlval \<times> sqlval) list \<Rightarrow> sqlval" where
  "joined_grade i t = (case filter (\<lambda>(j, g). sql_eq i j) t of [] \<Rightarrow> SNull | (j, g) # ms \<Rightarrow> g)"

section \<open>The grade and the average of studentPerformance\<close>

text \<open>
  \<^verbatim>\<open>
  def get_column_grade_and_average(self, research_id, table_name, q_column, connection):
      cursor = connection.cursor()
      query = f"SELECT {q_column} FROM {table_name} WHERE ResearchId = ?;"
      cursor.execute(query, (research_id,))
      entry = cursor.fetchone()
      if entry:
          query_avg = f"SELECT AVG(CAST({q_column} AS REAL)) FROM {table_name};"
          cursor.execute(query_avg)
          average = cursor.fetchone()[0]
          return float(entry[0]), average
      return None, None
  \<close>
  \<open>q_column\<close> is taken to be the name of a column and \<open>research_id\<close> an integer.
  \<^verbatim>\<open>fetchone\<close> gives the first row; a row is a non-empty tuple and so is true in the
  \<^verbatim>\<open>if\<close>, whatever it holds. \<^verbatim>\<open>float(None)\<close> raises \<^verbatim>\<open>TypeError\<close>, \<^verbatim>\<open>float\<close> of a text that
  is no number raises \<^verbatim>\<open>ValueError\<close>. \<^verbatim>\<open>CAST(x AS REAL)\<close> keeps \<^verbatim>\<open>NULL\<close> and reads a text
  as a number; \<^verbatim>\<open>AVG\<close> is the mean of the values that are not \<^verbatim>\<open>NULL\<close>, and \<^verbatim>\<open>NULL\<close>
  when there is none. The two readings of texts are parameters of the model:
  \<open>py_float\<close> for Python and \<open>cast_real\<close> for SQLite.
\<close>

definition sql_eq_int :: "sqlval \<Rightarrow> int \<Rightarrow> bool" where
  "sql_eq_int v n = (v = SNum (of_int n))"

definition to_float :: "(string \<Rightarrow> real option) \<Rightarrow> sqlval \<Rightarrow> error + real" where
  "to_float py_float v =
     (case v of
        SNull \<Rightarrow> Inl TypeError
      | SNum x \<Rightarrow> Inr x
      | SText s \<Rightarrow> (case py_float s of None \<Rightarrow> Inl ValueError | Some x \<Rightarrow> Inr x))"

definition cast_as_real :: "(string \<Rightarrow> real) \<Rightarrow> sqlval \<Rightarrow> real option" where
  "cast_as_real cast_real v =
     (case v of SNull \<Rightarrow> None | SNum x \<Rightarrow> Some x | SText s \<Rightarrow> Some (cast_real s))"

definition sql_avg :: "real option list \<Rightarrow> real option" where
  "sql_avg vs =
     (let xs = map the (filter (\<lambda>v. v \<noteq> None) vs)
      in if xs = [] then None else Some (sum_list xs / real (length xs)))"

definition get_column_grade_and_average ::
  "(string \<Rightarrow> real option) \<Rightarrow> (string \<Rightarrow> real) \<Rightarrow>
     int \<Rightarrow> string \<Rightarrow> string \<Rightarrow> database \<Rightarrow> error + (real option \<times> real option)" where
  "get_column_grade_and_average py_float cast_real research_id table_name q_column connection =
     (case connection table_name of
        None \<Rightarrow> Inl OperationalError
      | Some t \<Rightarrow>
          (case select2 t ''ResearchId'' q_column of
             Inl e \<Rightarrow> Inl e
           | Inr selected \<Rightarrow>
               (case filter (\<lambda>(i, v). sql_eq_int i research_id) selected of
                  [] \<Rightarrow> Inr (None, None)
                | entry # others \<Rightarrow>
                    (let average = sql_avg (map (\<lambda>(i, v). cast_as_real cast_real v) selected)
                     in case to_float py_float (snd entry) of
                          Inl e \<Rightarrow> Inl e
                        | Inr grade \<Rightarrow> Inr (Some grade, average)))))"

section \<open>Example inputs\<close>

text \<open>
  One admissible parser for \<open>num\<close>: decimal integers with an optional minus sign. The parser of pandas
  reads more (signs, fractions, exponents); the theorems hold for every parser.
\<close>

definition digit_of :: "char \<Rightarrow> nat option" where
  "digit_of c = map_of (zip ''0123456789'' [0, 1, 2, 3, 4, 5, 6, 7, 8, 9]) c"

fun parse_digits :: "nat \<Rightarrow> string \<Rightarrow> nat option" where
  "parse_digits acc [] = Some acc"
| "parse_digits acc (c # cs) =
     (case digit_of c of None \<Rightarrow> None | Some d \<Rightarrow> parse_digits (10 * acc + d) cs)"

definition parse_unsigned :: "string \<Rightarrow> real option" where
  "parse_unsigned s = (if s = [] then None else map_option real (parse_digits 0 s))"

definition parse_decimal :: "string \<Rightarrow> real option" where
  "parse_decimal s =
     (case s of
        [] \<Rightarrow> None
      | c # cs \<Rightarrow>
          if c = CHR ''-'' then map_option uminus (parse_unsigned cs) else parse_unsigned s)"

text \<open>Three attempts of student 1, two of them with the best grade, and one of student 2.\<close>

definition attempts_frame :: frame where
  "attempts_frame =
     \<lparr>columns = [''ResearchId'', ''Grade'', ''Q1''],
      rows = [[Num 1, Num 80, Num 4], [Num 1, Num 90, Num 1],
              [Num 2, NaN, Num 3], [Num 1, Num 90, Num 2]]\<rparr>"

text \<open>
  A raw export whose grade column is labelled \<open>Grade/600\<close>, and two frames that lack a
  column the deduplication needs.
\<close>

definition slash_frame :: frame where
  "slash_frame =
     \<lparr>columns = [''ResearchId'', ''Grade/600'', ''State''],
      rows = [[Num 1, Str ''80'', Str ''Finished''], [Num 2, Str ''-'', Str ''Finished'']]\<rparr>"

definition no_grade_frame :: frame where
  "no_grade_frame = \<lparr>columns = [''ResearchId'', ''Q1''], rows = [[Num 1, Num 4], [Num 1, Num 5]]\<rparr>"

definition no_id_frame :: frame where
  "no_id_frame = \<lparr>columns = [''Grade'', ''Q1''], rows = [[Num 70, Num 4], [Num 90, Num 5]]\<rparr>"

text \<open>
  A raw export with a question column, a sentinel, a missing grade and a score that does
  not parse; and two attempts of one student, one without a grade and one with a
  negative grade.
\<close>

definition export_frame :: frame where
  "export_frame =
     \<lparr>columns = [''ResearchId'', ''Grade/600'', ''Q 1 /1.00'', ''State''],
      rows = [[Num 1, Str ''80'', Str ''1'', Str ''Finished''],
              [Num 1, Str ''-'', Str ''-'', Str ''In progress''],
              [Num 2, NaN, Str ''abc'', Str ''Finished'']]\<rparr>"

definition negative_frame :: frame where
  "negative_frame =
     \<lparr>columns = [''ResearchId'', ''Grade''],
      rows = [[Num 1, Str ''-''], [Num 1, Str ''-5'']]\<rparr>"

text \<open>
  The frame of the source's test of the threshold filter, a frame with low grades, the
  frame of the source's test of the standardisation, and one with grades to drop.
\<close>

definition threshold_test_frame :: frame where
  "threshold_test_frame =
     \<lparr>columns = [''Grade_Test1'', ''Grade_Test2'', ''Grade_Test3''],
      rows = [[Num 50, Num 55, Num 60], [Num 60, Num 65, Num 70], [Num 70, Num 75, Num 80]]\<rparr>"

definition low_grades_frame :: frame where
  "low_grades_frame =
     \<lparr>columns = [''Grade_Test1'', ''Grade_Test2'', ''Grade_Test3'', ''Grade_Sumtest''],
      rows = [[Num 30, Num 40, Num 49, Num 80], [Num 50, Num 1, Num 20, NaN],
              [Num 10, Num 20, Num 30, Num 40]]\<rparr>"

definition standardise_test_frame :: frame where
  "standardise_test_frame = \<lparr>columns = [''Grade''], rows = [[Num 50], [Num 100], [Num 75]]\<rparr>"

definition raw_grades_frame :: frame where
  "raw_grades_frame =
     \<lparr>columns = [''ResearchId'', ''Grade''],
      rows = [[Num 1, Str ''40''], [Num 2, Str ''-''], [Num 3, Num 80], [Num 4, NaN]]\<rparr>"

text \<open>
  Databases for the consolidated grades: one in which the students took different tests,
  and one in which student 1 has a row without a grade in \<open>Test1\<close>.
\<close>

definition grades_table :: "(real \<times> sqlval) list \<Rightarrow> sql_table" where
  "grades_table rs =
     \<lparr>col_names = [''ResearchId'', ''Grade''], sql_rows = map (\<lambda>(i, g). [SNum i, g]) rs\<rparr>"

definition partial_db :: database where
  "partial_db =
     [''Test1'' \<mapsto> grades_table [(1, SNum 40), (2, SNum 55)],
      ''Test2'' \<mapsto> grades_table [(2, SNum 30), (3, SNum 45)],
      ''Test3'' \<mapsto> grades_table [],
      ''Test4'' \<mapsto> grades_table [(1, SNum 20)],
      ''Mocktest'' \<mapsto> grades_table [],
      ''Sumtest'' \<mapsto> grades_table [(3, SNum 90)]]"

definition null_grade_db :: database where
  "null_grade_db =
     [''Test1'' \<mapsto> grades_table [(1, SNull), (2, SNum 55)],
      ''Test2'' \<mapsto> grades_table [(1, SNum 70)],
      ''Test3'' \<mapsto> grades_table [],
      ''Test4'' \<mapsto> grades_table [],
      ''Mocktest'' \<mapsto> grades_table [],
      ''Sumtest'' \<mapsto> grades_table []]"

text \<open>
  The table of the source's test of \<^verbatim>\<open>get_column_grade_and_average\<close>, the same table
  with a \<^verbatim>\<open>NULL\<close> score for student 1, and a reading of texts for \<^verbatim>\<open>CAST\<close>.
\<close>

definition performance_db :: database where
  "performance_db =
     [''TestTable1'' \<mapsto>
        \<lparr>col_names = [''ResearchId'', ''Q1'', ''Q2''],
         sql_rows = [[SNum 1, SNum 80, SNum 70], [SNum 2, SNum 90, SNum 85],
                     [SNum 3, SNum 75, SNum 65]]\<rparr>]"

definition null_score_db :: database where
  "null_score_db =
     [''TestTable1'' \<mapsto>
        \<lparr>col_names = [''ResearchId'', ''Q1'', ''Q2''],
         sql_rows = [[SNum 1, SNull, SNum 70], [SNum 2, SNum 90, SNum 85],
                     [SNum 3, SNum 75, SNum 65]]\<rparr>]"

definition cast_decimal :: "string \<Rightarrow> real" where
  "cast_decimal s = (case parse_decimal s of None \<Rightarrow> 0 | Some x \<Rightarrow> x)"

text \<open>The tables of \<open>partial_db\<close> in the order of the query, and what the query reads of them.\<close>

definition partial_tables :: "sql_table list" where
  "partial_tables =
     [grades_table [(1, SNum 40), (2, SNum 55)], grades_table [(2, SNum 30), (3, SNum 45)],
      grades_table [], grades_table [(1, SNum 20)], grades_table [], grades_table [(3, SNum 90)]]"

definition partial_pairs :: "(sqlval \<times> sqlval) list list" where
  "partial_pairs =
     [[(SNum 1, SNum 40), (SNum 2, SNum 55)], [(SNum 2, SNum 30), (SNum 3, SNum 45)],
      [], [(SNum 1, SNum 20)], [], [(SNum 3, SNum 90)]]"

text \<open>
  Two attempts of student 1 with the same best grade, and two attempts whose grades are
  strings.
\<close>

definition tie_frame :: frame where
  "tie_frame =
     \<lparr>columns = [''ResearchId'', ''Grade'', ''Q1''],
      rows = [[Num 1, Num 90, Num 2], [Num 1, Num 90, Num 3], [Num 2, Num 85, Num 4]]\<rparr>"

definition text_grades_frame :: frame where
  "text_grades_frame =
     \<lparr>columns = [''ResearchId'', ''Grade''], rows = [[Num 1, Str ''9''], [Num 1, Str ''80'']]\<rparr>"

text \<open>A frame with its header and no row, without a \<open>ResearchId\<close> column.\<close>

definition header_only_frame :: frame where
  "header_only_frame = \<lparr>columns = [''Grade'', ''Q1''], rows = []\<rparr>"

section \<open>Properties of the column names\<close>
















section \<open>Sorting and deduplication\<close>

lemma positions_Nil_iff: "positions col cols = [] \<longleftrightarrow> col \<notin> set cols"
  by (auto simp: positions_def filter_empty_conv in_set_conv_nth)

lemma positions_mem: "j \<in> set (positions col cols) \<longleftrightarrow> j < length cols \<and> cols ! j = col"
  by (auto simp: positions_def)

lemma cell_ge_refl: "cell_ge a a"
  by (cases a) (simp_all add: cell_ge_def)

lemma cell_ge_trans: "cell_ge a b \<Longrightarrow> cell_ge b c \<Longrightarrow> cell_ge a c"
  by (cases a; cases b; cases c) (auto simp: cell_ge_def)

lemma cell_ge_total_num: "\<not> is_Str a \<Longrightarrow> \<not> is_Str b \<Longrightarrow> cell_ge a b \<or> cell_ge b a"
  by (cases a; cases b) (auto simp: cell_ge_def is_Str_def)

lemma cell_ge_total_text: "\<not> is_Num a \<Longrightarrow> \<not> is_Num b \<Longrightarrow> cell_ge a b \<or> cell_ge b a"
  by (cases a; cases b) (auto simp: cell_ge_def is_Num_def)

lemma cell_ge_antisym: "cell_ge a b \<Longrightarrow> cell_ge b a \<Longrightarrow> a = b"
  by (cases a; cases b) (auto simp: cell_ge_def)

lemma mset_insert_desc: "mset (insert_desc key x ys) = add_mset x (mset ys)"
  by (induction ys) auto

lemma mset_stable_sort_desc: "mset (stable_sort_desc key rs) = mset rs"
  unfolding stable_sort_desc_def by (induction rs) (auto simp: mset_insert_desc)

lemma set_insert_desc: "set (insert_desc key x ys) = insert x (set ys)"
  by (induction ys) auto

lemma sorted_insert_desc:
  assumes "sorted_wrt (\<lambda>a b. cell_ge (key a) (key b)) ys"
    and "\<forall>y\<in>set ys. cell_ge (key x) (key y) \<or> cell_ge (key y) (key x)"
  shows "sorted_wrt (\<lambda>a b. cell_ge (key a) (key b)) (insert_desc key x ys)"
  using assms
proof (induction ys)
  case Nil
  then show ?case by simp
next
  case (Cons y ys)
  show ?case
  proof (cases "cell_ge (key x) (key y)")
    case True
    have "cell_ge (key x) (key z)" if "z \<in> set ys" for z
      using Cons.prems(1) that True cell_ge_trans by auto
    with True Cons.prems(1) show ?thesis by auto
  next
    case False
    with Cons.prems(2) have yx: "cell_ge (key y) (key x)" by auto
    have ih: "sorted_wrt (\<lambda>a b. cell_ge (key a) (key b)) (insert_desc key x ys)"
      using Cons.IH Cons.prems by auto
    have "cell_ge (key y) (key z)" if "z \<in> set (insert_desc key x ys)" for z
      using that yx Cons.prems(1) by (auto simp: set_insert_desc)
    with False ih show ?thesis by auto
  qed
qed

lemma sorted_stable_sort_desc:
  assumes "\<forall>a\<in>set rs. \<forall>b\<in>set rs. cell_ge (key a) (key b) \<or> cell_ge (key b) (key a)"
  shows "sorted_wrt (\<lambda>a b. cell_ge (key a) (key b)) (stable_sort_desc key rs)"
  using assms
proof (induction rs)
  case Nil
  then show ?case by (simp add: stable_sort_desc_def)
next
  case (Cons x rs)
  have s: "set (stable_sort_desc key rs) = set rs"
    using mset_stable_sort_desc [of key rs] by (rule mset_eq_setD)
  have ih: "sorted_wrt (\<lambda>a b. cell_ge (key a) (key b)) (stable_sort_desc key rs)"
    using Cons by auto
  have "\<forall>y\<in>set (stable_sort_desc key rs). cell_ge (key x) (key y) \<or> cell_ge (key y) (key x)"
    using Cons.prems s by auto
  from sorted_insert_desc [OF ih this] show ?case
    by (simp add: stable_sort_desc_def)
qed

lemma filter_insert_desc:
  "filter (\<lambda>r. key r = k) (insert_desc key x ys)
     = (if key x = k then x # filter (\<lambda>r. key r = k) ys else filter (\<lambda>r. key r = k) ys)"
proof (induction ys)
  case Nil
  then show ?case by simp
next
  case (Cons y ys)
  show ?case
  proof (cases "cell_ge (key x) (key y)")
    case True
    then show ?thesis by simp
  next
    case False
    then have "key y \<noteq> key x" using cell_ge_refl [of "key x"] by auto
    with False Cons.IH show ?thesis by auto
  qed
qed

lemma stable_sort_desc_stable: "stable stable_sort_desc"
proof -
  have "filter (\<lambda>r. key r = k) (stable_sort_desc key rs) = filter (\<lambda>r. key r = k) rs" for key rs k
    unfolding stable_sort_desc_def by (induction rs) (auto simp: filter_insert_desc)
  then show ?thesis by (simp add: stable_def)
qed

lemma stable_sort_desc_sorts: "sorts_descending stable_sort_desc"
proof -
  have "sorted_wrt (\<lambda>a b. cell_ge (key a) (key b)) (stable_sort_desc key rs)"
    if "\<not> list_ex (\<lambda>r. is_Str (key r)) rs" for key rs
    using that by (intro sorted_stable_sort_desc) (auto simp: list_ex_iff cell_ge_total_num)
  then show ?thesis by (simp add: sorts_descending_def mset_stable_sort_desc)
qed

lemma stable_sort_desc_sorts_text: "sorts_text stable_sort_desc"
proof -
  have "sorted_wrt (\<lambda>a b. cell_ge (key a) (key b)) (stable_sort_desc key rs)"
    if "\<not> list_ex (\<lambda>r. is_Num (key r)) rs" for key rs
    using that by (intro sorted_stable_sort_desc) (auto simp: list_ex_iff cell_ge_total_text)
  then show ?thesis by (simp add: sorts_text_def mset_stable_sort_desc)
qed

lemma reversing_sort_desc_sorts: "sorts_descending reversing_sort_desc"
proof -
  have "sorted_wrt (\<lambda>a b. cell_ge (key a) (key b)) (reversing_sort_desc key rs)"
    if "\<not> list_ex (\<lambda>r. is_Str (key r)) rs" for key rs
    unfolding reversing_sort_desc_def
    using that by (intro sorted_stable_sort_desc) (auto simp: list_ex_iff cell_ge_total_num)
  then show ?thesis
    by (simp add: sorts_descending_def reversing_sort_desc_def mset_stable_sort_desc)
qed

lemma reversing_sort_desc_sorts_text: "sorts_text reversing_sort_desc"
proof -
  have "sorted_wrt (\<lambda>a b. cell_ge (key a) (key b)) (reversing_sort_desc key rs)"
    if "\<not> list_ex (\<lambda>r. is_Num (key r)) rs" for key rs
    unfolding reversing_sort_desc_def
    using that by (intro sorted_stable_sort_desc) (auto simp: list_ex_iff cell_ge_total_text)
  then show ?thesis
    by (simp add: sorts_text_def reversing_sort_desc_def mset_stable_sort_desc)
qed

lemma keep_first_subset: "set (keep_first f seen xs) \<subseteq> set xs"
  by (induction xs arbitrary: seen) auto

lemma keep_first_keys:
  "f ` set (keep_first f seen xs) = f ` set xs - set seen"
  by (induction xs arbitrary: seen) auto

lemma keep_first_distinct: "distinct (map f (keep_first f seen xs))"
proof (induction xs arbitrary: seen)
  case Nil
  then show ?case by simp
next
  case (Cons x xs)
  have "f x \<notin> f ` set (keep_first f (f x # seen) xs)"
    by (simp add: keep_first_keys)
  with Cons show ?case by auto
qed

lemma keep_first_split:
  "x \<in> set (keep_first f seen xs) \<Longrightarrow>
     \<exists>ys zs. xs = ys @ x # zs \<and> f x \<notin> f ` set ys"
proof (induction xs arbitrary: seen)
  case Nil
  then show ?case by simp
next
  case (Cons a xs)
  show ?case
  proof (cases "f a \<in> set seen")
    case True
    with Cons.prems have "x \<in> set (keep_first f seen xs)" by simp
    from Cons.IH [OF this] obtain ys zs where 1: "xs = ys @ x # zs" "f x \<notin> f ` set ys" by blast
    have "f x \<notin> set seen"
      using \<open>x \<in> set (keep_first f seen xs)\<close> keep_first_keys [of f seen xs] by blast
    with True have "f a \<noteq> f x" by auto
    with 1 have "a # xs = (a # ys) @ x # zs \<and> f x \<notin> f ` set (a # ys)" by auto
    then show ?thesis by blast
  next
    case False
    with Cons.prems have "x = a \<or> x \<in> set (keep_first f (f a # seen) xs)" by simp
    then show ?thesis
    proof
      assume "x = a"
      then have "a # xs = [] @ x # xs \<and> f x \<notin> f ` set []" by simp
      then show ?thesis by blast
    next
      assume m: "x \<in> set (keep_first f (f a # seen) xs)"
      from Cons.IH [OF this] obtain ys zs where 1: "xs = ys @ x # zs" "f x \<notin> f ` set ys" by blast
      have "f x \<notin> set (f a # seen)"
        using m keep_first_keys [of f "f a # seen" xs] by blast
      then have "f a \<noteq> f x" by auto
      with 1 have "a # xs = (a # ys) @ x # zs \<and> f x \<notin> f ` set (a # ys)" by auto
      then show ?thesis by blast
    qed
  qed
qed

lemma keep_first_max:
  assumes s: "sorted_wrt (\<lambda>a b. cell_ge (key a) (key b)) xs"
    and x: "x \<in> set (keep_first f [] xs)"
    and y: "y \<in> set xs" "f y = f x"
  shows "cell_ge (key x) (key y)"
proof -
  from keep_first_split [OF x] obtain ys zs where
    xs: "xs = ys @ x # zs" and n: "f x \<notin> f ` set ys" by blast
  from n have "\<forall>u\<in>set ys. f u \<noteq> f x" by (auto simp: image_iff)
  with y xs have "y = x \<or> y \<in> set zs" by auto
  then show ?thesis
  proof
    assume "y = x"
    then show ?thesis by (simp add: cell_ge_refl)
  next
    assume "y \<in> set zs"
    with s xs show ?thesis by (auto simp: sorted_wrt_append)
  qed
qed

lemma keep_first_head:
  assumes x: "x \<in> set (keep_first f [] xs)"
  shows "\<exists>rest. filter (\<lambda>y. f y = f x \<and> P y) xs = (if P x then x # rest else rest)"
proof -
  from keep_first_split [OF x] obtain ys zs where
    xs: "xs = ys @ x # zs" and n: "f x \<notin> f ` set ys" by blast
  from n have "\<forall>u\<in>set ys. f u \<noteq> f x" by (auto simp: image_iff)
  then have "filter (\<lambda>y. f y = f x \<and> P y) ys = []"
    by (auto simp: filter_empty_conv)
  with xs show ?thesis by auto
qed

lemma distinct_mapD: "distinct (map h xs) \<Longrightarrow> distinct xs"
  by (simp add: distinct_map)

lemma dedupe_eval:
  assumes k: "positions ''ResearchId'' (columns df) = [k]"
    and g: "positions ''Grade'' (columns df) = [g]"
    and nomix: "\<not> (list_ex (\<lambda>r. is_Str (r ! g)) (rows df) \<and> list_ex (\<lambda>r. is_Num (r ! g)) (rows df))"
    and ms: "mset (srt (\<lambda>r. r ! g) (rows df)) = mset (rows df)"
  shows "drop_duplicate_research_ids srt df =
           Inr (df\<lparr>rows := keep_first (\<lambda>r. [r ! k]) [] (srt (\<lambda>r. r ! g) (rows df))\<rparr>)"
proof -
  define xs where "xs = srt (\<lambda>r. r ! g) (rows df)"
  have sv: "sort_values_desc srt ''Grade'' df = Inr (df\<lparr>rows := xs\<rparr>)"
    using g nomix by (simp add: sort_values_desc_def xs_def)
  have cne: "columns df \<noteq> []" using k by (auto simp: positions_def)
  have "drop_duplicates ''ResearchId'' (df\<lparr>rows := xs\<rparr>)
        = Inr (df\<lparr>rows := keep_first (\<lambda>r. [r ! k]) [] xs\<rparr>)"
  proof (cases "xs = []")
    case True
    then show ?thesis by (simp add: drop_duplicates_def)
  next
    case False
    then show ?thesis using k cne by (simp add: drop_duplicates_def)
  qed
  with sv show ?thesis by (simp add: drop_duplicate_research_ids_def xs_def)
qed

lemma dedupe_props:
  assumes k: "positions ''ResearchId'' (columns df) = [k]"
    and g: "positions ''Grade'' (columns df) = [g]"
    and nomix: "\<not> (list_ex (\<lambda>r. is_Str (r ! g)) (rows df) \<and> list_ex (\<lambda>r. is_Num (r ! g)) (rows df))"
    and ms: "mset (srt (\<lambda>r. r ! g) (rows df)) = mset (rows df)"
    and so: "sorted_wrt (\<lambda>a b. cell_ge (a ! g) (b ! g)) (srt (\<lambda>r. r ! g) (rows df))"
  shows "\<exists>out. drop_duplicate_research_ids srt df = Inr out
     \<and> columns out = columns df
     \<and> set (rows out) \<subseteq> set (rows df)
     \<and> distinct (map (\<lambda>r. r ! k) (rows out))
     \<and> (\<lambda>r. r ! k) ` set (rows out) = (\<lambda>r. r ! k) ` set (rows df)
     \<and> (\<forall>r\<in>set (rows out). \<forall>r'\<in>set (rows df).
           r' ! k = r ! k \<longrightarrow> cell_ge (r ! g) (r' ! g))
     \<and> (stable srt \<longrightarrow>
          (\<forall>r\<in>set (rows out). \<exists>rest.
             filter (\<lambda>r'. r' ! k = r ! k \<and> r' ! g = r ! g) (rows df) = r # rest))"
proof -
  define key where "key = (\<lambda>r::cell list. r ! g)"
  define f where "f = (\<lambda>r::cell list. [r ! k])"
  define xs where "xs = srt key (rows df)"
  define out where "out = df\<lparr>rows := keep_first f [] xs\<rparr>"
  have ev: "drop_duplicate_research_ids srt df = Inr out"
    using dedupe_eval [where srt = srt, OF k g nomix ms] by (simp add: out_def xs_def key_def f_def)
  have ms': "mset xs = mset (rows df)" using ms by (simp add: xs_def key_def)
  have so': "sorted_wrt (\<lambda>a b. cell_ge (key a) (key b)) xs"
    using so by (simp add: xs_def key_def)
  from ms' have se: "set xs = set (rows df)" by (rule mset_eq_setD)
  have ro: "rows out = keep_first f [] xs" by (simp add: out_def)
  have sub: "set (rows out) \<subseteq> set (rows df)"
    using keep_first_subset [of f "[]" xs] se ro by simp
  have d: "distinct (map (\<lambda>r. r ! k) (rows out))"
  proof -
    have "distinct (map f (rows out))" unfolding ro by (rule keep_first_distinct)
    then have "distinct (map (\<lambda>v. [v]) (map (\<lambda>r. r ! k) (rows out)))"
      by (simp add: f_def comp_def)
    then show ?thesis by (rule distinct_mapD)
  qed
  have im: "(\<lambda>r. r ! k) ` set (rows out) = (\<lambda>r. r ! k) ` set (rows df)"
  proof -
    have "f ` set (rows out) = f ` set (rows df)"
      using keep_first_keys [of f "[]" xs] se ro by simp
    then have "(\<lambda>v. hd v) ` f ` set (rows out) = (\<lambda>v. hd v) ` f ` set (rows df)" by simp
    then show ?thesis by (simp add: image_image f_def)
  qed
  have mx: "cell_ge (r ! g) (r' ! g)"
    if "r \<in> set (rows out)" "r' \<in> set (rows df)" "r' ! k = r ! k" for r r'
  proof -
    have "cell_ge (key r) (key r')"
      using keep_first_max [OF so', of r f r'] that se ro by (simp add: f_def)
    then show ?thesis by (simp add: key_def)
  qed
  have st: "\<exists>rest. filter (\<lambda>r'. r' ! k = r ! k \<and> r' ! g = r ! g) (rows df) = r # rest"
    if s: "stable srt" and r: "r \<in> set (rows out)" for r
  proof -
    have "\<exists>rest. filter (\<lambda>y. f y = f r \<and> key y = key r) xs = (if key r = key r then r # rest else rest)"
      using r ro by (intro keep_first_head) simp
    then obtain rest where 1: "filter (\<lambda>y. f y = f r \<and> key y = key r) xs = r # rest" by auto
    have "filter (\<lambda>y. f y = f r \<and> key y = key r) xs
          = filter (\<lambda>y. f y = f r) (filter (\<lambda>y. key y = key r) xs)"
      by (simp add: conj_commute)
    also have "\<dots> = filter (\<lambda>y. f y = f r) (filter (\<lambda>y. key y = key r) (rows df))"
      using s by (simp add: stable_def xs_def)
    also have "\<dots> = filter (\<lambda>y. f y = f r \<and> key y = key r) (rows df)"
      by (simp add: conj_commute)
    also have "\<dots> = filter (\<lambda>r'. r' ! k = r ! k \<and> r' ! g = r ! g) (rows df)"
      by (simp add: f_def key_def)
    finally have "filter (\<lambda>r'. r' ! k = r ! k \<and> r' ! g = r ! g) (rows df) = r # rest"
      using 1 by simp
    then show ?thesis by (rule exI)
  qed
  have co: "columns out = columns df" by (simp add: out_def)
  show ?thesis using ev co sub d im mx st by blast
qed

text \<open>
  Claim C2, as amended. On a frame with one \<open>ResearchId\<close> column and one \<open>Grade\<close> column
  that does not hold both strings and numbers, the deduplication returns a frame with the
  same columns whose rows are rows of the input, exactly one for each \<open>ResearchId\<close> of the
  input. The row kept for an id has the largest grade among the input rows of that id:
  the largest number in a column of numbers, the largest string, as text, in a column of
  strings, a missing grade counting as the smallest. Which of several rows with that
  grade is kept depends on the sort: it is the first of them in the input when the sort
  is stable.
\<close>

theorem drop_duplicate_research_ids_max:
  assumes srt: "sorts_descending srt"
    and stx: "sorts_text srt"
    and k: "positions ''ResearchId'' (columns df) = [k]"
    and g: "positions ''Grade'' (columns df) = [g]"
    and nomix: "\<not> (list_ex (\<lambda>r. is_Str (r ! g)) (rows df) \<and> list_ex (\<lambda>r. is_Num (r ! g)) (rows df))"
  shows "\<exists>out. drop_duplicate_research_ids srt df = Inr out
     \<and> columns out = columns df
     \<and> set (rows out) \<subseteq> set (rows df)
     \<and> distinct (map (\<lambda>r. r ! k) (rows out))
     \<and> (\<lambda>r. r ! k) ` set (rows out) = (\<lambda>r. r ! k) ` set (rows df)
     \<and> (\<forall>r\<in>set (rows out). \<forall>r'\<in>set (rows df).
           r' ! k = r ! k \<longrightarrow> cell_ge (r ! g) (r' ! g))
     \<and> (stable srt \<longrightarrow>
          (\<forall>r\<in>set (rows out). \<exists>rest.
             filter (\<lambda>r'. r' ! k = r ! k \<and> r' ! g = r ! g) (rows df) = r # rest))"
proof -
  have c: "mset (srt (\<lambda>r. r ! g) (rows df)) = mset (rows df)
      \<and> sorted_wrt (\<lambda>a b. cell_ge (a ! g) (b ! g)) (srt (\<lambda>r. r ! g) (rows df))"
  proof (cases "list_ex (\<lambda>r. is_Str (r ! g)) (rows df)")
    case False
    with srt show ?thesis by (simp add: sorts_descending_def)
  next
    case True
    with nomix have "\<not> list_ex (\<lambda>r. is_Num (r ! g)) (rows df)" by simp
    with stx show ?thesis by (simp add: sorts_text_def)
  qed
  show ?thesis
    by (rule dedupe_props [where srt = srt, OF k g nomix conjunct1 [OF c] conjunct2 [OF c]])
qed

theorem drop_duplicate_research_ids_max_witness:
  "sorts_descending stable_sort_desc
   \<and> sorts_text stable_sort_desc
   \<and> positions ''ResearchId'' (columns attempts_frame) = [0]
   \<and> positions ''Grade'' (columns attempts_frame) = [1]
   \<and> \<not> (list_ex (\<lambda>r. is_Str (r ! 1)) (rows attempts_frame)
         \<and> list_ex (\<lambda>r. is_Num (r ! 1)) (rows attempts_frame))
   \<and> stable stable_sort_desc
   \<and> drop_duplicate_research_ids stable_sort_desc attempts_frame =
       Inr \<lparr>columns = [''ResearchId'', ''Grade'', ''Q1''],
            rows = [[Num 1, Num 90, Num 1], [Num 2, NaN, Num 3]]\<rparr>
   \<and> (\<exists>out. drop_duplicate_research_ids stable_sort_desc attempts_frame = Inr out
     \<and> columns out = columns attempts_frame
     \<and> set (rows out) \<subseteq> set (rows attempts_frame)
     \<and> distinct (map (\<lambda>r. r ! 0) (rows out))
     \<and> (\<lambda>r. r ! 0) ` set (rows out) = (\<lambda>r. r ! 0) ` set (rows attempts_frame)
     \<and> (\<forall>r\<in>set (rows out). \<forall>r'\<in>set (rows attempts_frame).
           r' ! 0 = r ! 0 \<longrightarrow> cell_ge (r ! 1) (r' ! 1))
     \<and> (stable stable_sort_desc \<longrightarrow>
          (\<forall>r\<in>set (rows out). \<exists>rest.
             filter (\<lambda>r'. r' ! 0 = r ! 0 \<and> r' ! 1 = r ! 1) (rows attempts_frame) = r # rest)))"
proof -
  have k: "positions ''ResearchId'' (columns attempts_frame) = [0]" by code_simp
  have g: "positions ''Grade'' (columns attempts_frame) = [1]" by code_simp
  have nm: "\<not> (list_ex (\<lambda>r. is_Str (r ! 1)) (rows attempts_frame)
         \<and> list_ex (\<lambda>r. is_Num (r ! 1)) (rows attempts_frame))" by code_simp
  have ev: "drop_duplicate_research_ids stable_sort_desc attempts_frame =
       Inr \<lparr>columns = [''ResearchId'', ''Grade'', ''Q1''],
            rows = [[Num 1, Num 90, Num 1], [Num 2, NaN, Num 3]]\<rparr>" by code_simp
  note th = drop_duplicate_research_ids_max
    [OF stable_sort_desc_sorts stable_sort_desc_sorts_text k g nm]
  show ?thesis
    using stable_sort_desc_sorts stable_sort_desc_sorts_text stable_sort_desc_stable k g nm ev th
    by (intro conjI) assumption+
qed

text \<open>
  The claim as stated fails in two ways. A sort that orders by grade, largest first, but
  is not stable keeps the later of two attempts with the same best grade. And in a
  \<open>Grade\<close> column of strings the row kept carries \<open>9\<close>, the largest string, not \<open>80\<close>.
\<close>

theorem tie_break_counterexample:
  "sorts_descending reversing_sort_desc
   \<and> sorts_text reversing_sort_desc
   \<and> drop_duplicate_research_ids reversing_sort_desc tie_frame =
       Inr \<lparr>columns = [''ResearchId'', ''Grade'', ''Q1''],
            rows = [[Num 1, Num 90, Num 3], [Num 2, Num 85, Num 4]]\<rparr>
   \<and> drop_duplicate_research_ids stable_sort_desc text_grades_frame =
       Inr \<lparr>columns = [''ResearchId'', ''Grade''], rows = [[Num 1, Str ''9'']]\<rparr>"
proof -
  have a: "drop_duplicate_research_ids reversing_sort_desc tie_frame =
       Inr \<lparr>columns = [''ResearchId'', ''Grade'', ''Q1''],
            rows = [[Num 1, Num 90, Num 3], [Num 2, Num 85, Num 4]]\<rparr>" by code_simp
  have b: "drop_duplicate_research_ids stable_sort_desc text_grades_frame =
       Inr \<lparr>columns = [''ResearchId'', ''Grade''], rows = [[Num 1, Str ''9'']]\<rparr>" by code_simp
  show ?thesis
    using reversing_sort_desc_sorts reversing_sort_desc_sorts_text a b
    by (intro conjI) assumption+
qed

section \<open>Missing columns\<close>

lemma map_column_columns: "columns (map_column j f df) = columns df"
  by (simp add: map_column_def)

lemma coerce_columns_columns:
  "coerce_columns num cols df = Inr df' \<Longrightarrow> columns df' = columns df"
proof (induction cols arbitrary: df)
  case Nil
  then show ?case by simp
next
  case (Cons col cols)
  then show ?case
    by (auto simp: map_column_columns split: list.splits)
qed

lemma coerce_columns_rows:
  "coerce_columns num cols df = Inr df' \<Longrightarrow> length (rows df') = length (rows df)"
proof (induction cols arbitrary: df)
  case Nil
  then show ?case by simp
next
  case (Cons col cols)
  then show ?case
    by (auto simp: map_column_def split: list.splits)
qed

lemma coerced_columns:
  "coerced num df = Inr df2 \<Longrightarrow> columns df2 = map clean_column_name (columns df)"
  by (auto simp: coerced_def Let_def clean_column_names_def dest: coerce_columns_columns)

lemma coerced_rows:
  "coerced num df = Inr df2 \<Longrightarrow> length (rows df2) = length (rows df)"
  by (auto simp: coerced_def Let_def clean_column_names_def dest: coerce_columns_rows)

lemma dedupe_no_grade:
  "''Grade'' \<notin> set (columns df) \<Longrightarrow>
     drop_duplicate_research_ids srt df = Inl (KeyError ''Grade'')"
  using positions_Nil_iff [of "''Grade''" "columns df"]
  by (simp add: drop_duplicate_research_ids_def sort_values_desc_def)

lemma sort_values_desc_Inr:
  assumes "sort_values_desc srt label df = Inr df1"
  shows "\<exists>g. positions label (columns df) = [g]
     \<and> \<not> (list_ex (\<lambda>r. is_Str (r ! g)) (rows df) \<and> list_ex (\<lambda>r. is_Num (r ! g)) (rows df))
     \<and> df1 = df\<lparr>rows := srt (\<lambda>r. r ! g) (rows df)\<rparr>"
  using assms by (auto simp: sort_values_desc_def split: list.splits if_splits)

lemma sorter_mset:
  assumes "sorts_descending srt" and "sorts_text srt"
    and "\<not> (list_ex (\<lambda>r. is_Str (key r)) rs \<and> list_ex (\<lambda>r. is_Num (key r)) rs)"
  shows "mset (srt key rs) = mset rs"
proof (cases "list_ex (\<lambda>r. is_Str (key r)) rs")
  case False
  with assms(1) show ?thesis by (simp add: sorts_descending_def)
next
  case True
  with assms(3) have "\<not> list_ex (\<lambda>r. is_Num (key r)) rs" by simp
  with assms(2) show ?thesis by (simp add: sorts_text_def)
qed

lemma dedupe_no_id:
  assumes srt: "sorts_descending srt" and stx: "sorts_text srt"
    and nid: "''ResearchId'' \<notin> set (columns df)" and ne: "rows df \<noteq> []"
  shows "\<exists>e. drop_duplicate_research_ids srt df = Inl e"
proof (cases "sort_values_desc srt ''Grade'' df")
  case (Inl e)
  then show ?thesis by (simp add: drop_duplicate_research_ids_def)
next
  case (Inr df1)
  from sort_values_desc_Inr [OF Inr] obtain g where
    g: "positions ''Grade'' (columns df) = [g]"
    and nm: "\<not> (list_ex (\<lambda>r. is_Str (r ! g)) (rows df) \<and> list_ex (\<lambda>r. is_Num (r ! g)) (rows df))"
    and d1: "df1 = df\<lparr>rows := srt (\<lambda>r. r ! g) (rows df)\<rparr>" by blast
  have "mset (rows df1) = mset (rows df)"
    using sorter_mset [OF srt stx nm] d1 by simp
  with ne have r1: "rows df1 \<noteq> []" by auto
  have c1: "columns df1 = columns df" using d1 by simp
  have cne: "columns df1 \<noteq> []" using g c1 by (auto simp: positions_def)
  have "positions ''ResearchId'' (columns df1) = []"
    using nid c1 by (simp add: positions_Nil_iff)
  with r1 cne have "drop_duplicates ''ResearchId'' df1 = Inl (KeyError ''ResearchId'')"
    by (simp add: drop_duplicates_def)
  with Inr show ?thesis by (simp add: drop_duplicate_research_ids_def)
qed

lemma dedupe_no_id_key:
  assumes srt: "sorts_descending srt" and stx: "sorts_text srt"
    and nid: "''ResearchId'' \<notin> set (columns df)" and ne: "rows df \<noteq> []"
    and g: "positions ''Grade'' (columns df) = [g]"
    and nm: "\<not> (list_ex (\<lambda>r. is_Str (r ! g)) (rows df) \<and> list_ex (\<lambda>r. is_Num (r ! g)) (rows df))"
  shows "drop_duplicate_research_ids srt df = Inl (KeyError ''ResearchId'')"
proof -
  define df1 where "df1 = df\<lparr>rows := srt (\<lambda>r. r ! g) (rows df)\<rparr>"
  have sv: "sort_values_desc srt ''Grade'' df = Inr df1"
    using g nm by (simp add: sort_values_desc_def df1_def)
  have "mset (rows df1) = mset (rows df)"
    using sorter_mset [OF srt stx nm] by (simp add: df1_def)
  with ne have r1: "rows df1 \<noteq> []" by auto
  have cne: "columns df1 \<noteq> []" using g by (auto simp: positions_def df1_def)
  have "positions ''ResearchId'' (columns df1) = []"
    using nid by (simp add: positions_Nil_iff df1_def)
  with r1 cne have "drop_duplicates ''ResearchId'' df1 = Inl (KeyError ''ResearchId'')"
    by (simp add: drop_duplicates_def)
  with sv show ?thesis by (simp add: drop_duplicate_research_ids_def)
qed

text \<open>
  Claim C3, as amended. The deduplication raises \<^verbatim>\<open>KeyError\<close> on a frame without a
  \<open>Grade\<close> column. On a frame that has a row and no \<open>ResearchId\<close> column it fails, with
  \<^verbatim>\<open>KeyError\<close> when the grades could be sorted. \<^verbatim>\<open>process_dataframe\<close> fails, and
  returns no frame, whenever the labels it obtains by cleaning the column names lack
  \<open>Grade\<close>, and whenever they lack \<open>ResearchId\<close> and the frame has a row.
\<close>

theorem missing_column_fails:
  assumes srt: "sorts_descending srt" and stx: "sorts_text srt"
  shows "(''Grade'' \<notin> set (columns df) \<longrightarrow>
      drop_duplicate_research_ids srt df = Inl (KeyError ''Grade''))
   \<and> (''ResearchId'' \<notin> set (columns df) \<and> rows df \<noteq> [] \<longrightarrow>
        (\<exists>e. drop_duplicate_research_ids srt df = Inl e))
   \<and> (''ResearchId'' \<notin> set (columns df) \<and> rows df \<noteq> []
        \<and> positions ''Grade'' (columns df) = [g]
        \<and> \<not> (list_ex (\<lambda>r. is_Str (r ! g)) (rows df) \<and> list_ex (\<lambda>r. is_Num (r ! g)) (rows df))
        \<longrightarrow> drop_duplicate_research_ids srt df = Inl (KeyError ''ResearchId''))
   \<and> (''Grade'' \<notin> set (map clean_column_name (columns df)) \<longrightarrow>
        (\<exists>e. process_dataframe srt num df = Inl e))
   \<and> (''ResearchId'' \<notin> set (map clean_column_name (columns df)) \<and> rows df \<noteq> [] \<longrightarrow>
        (\<exists>e. process_dataframe srt num df = Inl e))"
proof -
  have p: "\<exists>e. process_dataframe srt num df = Inl e"
    if m: "''Grade'' \<notin> set (map clean_column_name (columns df))
        \<or> (''ResearchId'' \<notin> set (map clean_column_name (columns df)) \<and> rows df \<noteq> [])"
  proof (cases "coerced num df")
    case (Inl e)
    then show ?thesis by (simp add: process_dataframe_def)
  next
    case (Inr df2)
    then have c: "columns df2 = map clean_column_name (columns df)" by (rule coerced_columns)
    have l: "length (rows df2) = length (rows df)" using Inr by (rule coerced_rows)
    have "\<exists>e. drop_duplicate_research_ids srt df2 = Inl e"
    proof (cases "''Grade'' \<notin> set (map clean_column_name (columns df))")
      case True
      then show ?thesis using c dedupe_no_grade [of df2 srt] by simp
    next
      case False
      with m have "''ResearchId'' \<notin> set (columns df2)" and "rows df2 \<noteq> []"
        using c l by auto
      then show ?thesis by (intro dedupe_no_id [OF srt stx])
    qed
    with Inr show ?thesis by (auto simp: process_dataframe_def)
  qed
  show ?thesis
    using p dedupe_no_grade [of df srt] dedupe_no_id [OF srt stx, of df]
      dedupe_no_id_key [OF srt stx, of df g]
    by blast
qed

theorem missing_column_fails_witness:
  "sorts_descending stable_sort_desc
   \<and> sorts_text stable_sort_desc
   \<and> ''Grade'' \<notin> set (columns no_grade_frame)
   \<and> drop_duplicate_research_ids stable_sort_desc no_grade_frame = Inl (KeyError ''Grade'')
   \<and> ''ResearchId'' \<notin> set (columns no_id_frame)
   \<and> rows no_id_frame \<noteq> []
   \<and> positions ''Grade'' (columns no_id_frame) = [0]
   \<and> \<not> (list_ex (\<lambda>r. is_Str (r ! 0)) (rows no_id_frame)
         \<and> list_ex (\<lambda>r. is_Num (r ! 0)) (rows no_id_frame))
   \<and> drop_duplicate_research_ids stable_sort_desc no_id_frame = Inl (KeyError ''ResearchId'')
   \<and> ''Grade'' \<notin> set (map clean_column_name (columns no_grade_frame))
   \<and> (\<exists>e. process_dataframe stable_sort_desc parse_decimal no_grade_frame = Inl e)
   \<and> ''ResearchId'' \<notin> set (map clean_column_name (columns no_id_frame))
   \<and> (\<exists>e. process_dataframe stable_sort_desc parse_decimal no_id_frame = Inl e)"
proof -
  have a: "''Grade'' \<notin> set (columns no_grade_frame)" by code_simp
  have b: "''ResearchId'' \<notin> set (columns no_id_frame)" by code_simp
  have b': "rows no_id_frame \<noteq> []" by code_simp
  have c: "positions ''Grade'' (columns no_id_frame) = [0]" by code_simp
  have d: "\<not> (list_ex (\<lambda>r. is_Str (r ! 0)) (rows no_id_frame)
         \<and> list_ex (\<lambda>r. is_Num (r ! 0)) (rows no_id_frame))" by code_simp
  have e: "''Grade'' \<notin> set (map clean_column_name (columns no_grade_frame))" by code_simp
  have f: "''ResearchId'' \<notin> set (map clean_column_name (columns no_id_frame))" by code_simp
  note t1 = missing_column_fails
    [OF stable_sort_desc_sorts stable_sort_desc_sorts_text, of no_grade_frame 0 parse_decimal]
  note t2 = missing_column_fails
    [OF stable_sort_desc_sorts stable_sort_desc_sorts_text, of no_id_frame 0 parse_decimal]
  have r1: "drop_duplicate_research_ids stable_sort_desc no_grade_frame = Inl (KeyError ''Grade'')"
    using t1 a by blast
  have r2: "drop_duplicate_research_ids stable_sort_desc no_id_frame = Inl (KeyError ''ResearchId'')"
    using t2 b b' c d by blast
  have r3: "\<exists>e. process_dataframe stable_sort_desc parse_decimal no_grade_frame = Inl e"
    using t1 e by blast
  have r4: "\<exists>e. process_dataframe stable_sort_desc parse_decimal no_id_frame = Inl e"
    using t2 f b' by blast
  show ?thesis
    using stable_sort_desc_sorts stable_sort_desc_sorts_text a b b' c d e f r1 r2 r3 r4
    by (intro conjI) assumption+
qed

text \<open>
  The claim as stated fails in two ways. A raw frame without a column labelled \<open>Grade\<close>
  is processed when one of its labels is cleaned to \<open>Grade\<close>. And a frame that has no row
  is returned by the deduplication, and processed, although it has no \<open>ResearchId\<close>
  column.
\<close>

theorem process_dataframe_slash_counterexample:
  "''Grade'' \<notin> set (columns slash_frame)
   \<and> process_dataframe stable_sort_desc parse_decimal slash_frame =
       Inr \<lparr>columns = [''ResearchId'', ''Grade''],
            rows = [[Num 1, Num 80], [Num 2, Num 0]]\<rparr>
   \<and> ''ResearchId'' \<notin> set (columns header_only_frame)
   \<and> drop_duplicate_research_ids stable_sort_desc header_only_frame =
       Inr \<lparr>columns = [''Grade'', ''Q1''], rows = []\<rparr>
   \<and> process_dataframe stable_sort_desc parse_decimal header_only_frame =
       Inr \<lparr>columns = [''Grade'', ''Q1''], rows = []\<rparr>"
  by code_simp

section \<open>The coercion loop\<close>


lemma positions_snoc:
  "positions c (xs @ [x]) = positions c xs @ (if x = c then [length xs] else [])"
proof -
  have "filter (\<lambda>j. (xs @ [x]) ! j = c) [0..<length xs] = filter (\<lambda>j. xs ! j = c) [0..<length xs]"
    by (rule filter_cong) (auto simp: nth_append)
  then show ?thesis by (simp add: positions_def)
qed

lemma positions_single:
  "distinct (filter P xs) \<Longrightarrow> P c \<Longrightarrow> c \<in> set xs \<Longrightarrow> \<exists>j. positions c xs = [j]"
proof (induction xs rule: rev_induct)
  case Nil
  then show ?case by simp
next
  case (snoc x xs)
  show ?case
  proof (cases "x = c")
    case True
    with snoc.prems have "c \<notin> set xs" by auto
    then have "positions c xs = []" by (simp add: positions_Nil_iff)
    with True show ?thesis by (simp add: positions_snoc)
  next
    case False
    with snoc.prems have "c \<in> set xs" "distinct (filter P xs)" by auto
    with snoc.IH snoc.prems(2) obtain j where "positions c xs = [j]" by blast
    with False show ?thesis by (simp add: positions_snoc)
  qed
qed

lemma positions_singleD:
  assumes "positions c xs = [j]"
  shows "j < length xs" "xs ! j = c" "\<And>j'. j' < length xs \<Longrightarrow> xs ! j' = c \<Longrightarrow> j' = j"
proof -
  have m: "\<And>j'. j' \<in> set (positions c xs) \<longleftrightarrow> j' < length xs \<and> xs ! j' = c"
    by (rule positions_mem)
  from assms m [of j] show "j < length xs" "xs ! j = c" by simp_all
  fix j' assume "j' < length xs" "xs ! j' = c"
  with m [of j'] assms show "j' = j" by simp
qed

lemma coerce_cell_Num: "\<exists>x. coerce_cell num c = Num x"
  by (cases c) (auto simp: coerce_cell_def fillna_def to_numeric_def replace_dash_def split: option.splits)

lemma coerce_cell_idem: "coerce_cell num (coerce_cell num c) = coerce_cell num c"
proof -
  obtain x where "coerce_cell num c = Num x" using coerce_cell_Num by blast
  then show ?thesis by (simp add: coerce_cell_def fillna_def to_numeric_def replace_dash_def)
qed

lemma map_column_twice:
  "map_column j f (map_column j g df) = map_column j (\<lambda>c. f (g c)) df"
proof -
  have "(r[j := g (r ! j)])[j := f ((r[j := g (r ! j)]) ! j)] = r[j := f (g (r ! j))]" for r :: "cell list"
    by (cases "j < length r") (simp_all add: list_update_beyond)
  then show ?thesis by (simp add: map_column_def)
qed

lemma coerce_columns_step:
  assumes "positions col (columns df) = [j]"
  shows "coerce_columns num (col # cols) df = coerce_columns num cols (map_column j (coerce_cell num) df)"
proof -
  have "coerce_cell num = (\<lambda>c. fillna 0 (to_numeric num (replace_dash c)))"
    by (rule ext) (simp add: coerce_cell_def)
  then show ?thesis
    using assms by (simp add: map_column_twice)
qed

lemma coerce_columns_fail:
  "coerce_columns num (col # cols) df = Inr df' \<Longrightarrow> \<exists>j. positions col (columns df) = [j]"
  by (auto split: list.splits)

lemma coerce_columns_cells:
  "coerce_columns num cols df = Inr df' \<Longrightarrow> cells_coerced num cols df df'"
proof (induction cols arbitrary: df)
  case Nil
  then show ?case by (simp add: cells_coerced_def)
next
  case (Cons col cols)
  from coerce_columns_fail [OF Cons.prems] obtain j where j: "positions col (columns df) = [j]" by blast
  define df1 where "df1 = map_column j (coerce_cell num) df"
  have "coerce_columns num cols df1 = Inr df'"
    using Cons.prems coerce_columns_step [OF j] by (simp add: df1_def)
  from Cons.IH [OF this] have ih: "cells_coerced num cols df1 df'" .
  have c1: "columns df1 = columns df" by (simp add: df1_def map_column_def)
  have l1: "length (rows df1) = length (rows df)" by (simp add: df1_def map_column_def)
  have r1: "rows df1 ! i = (rows df ! i)[j := coerce_cell num (rows df ! i ! j)]"
    if "i < length (rows df)" for i
    using that by (simp add: df1_def map_column_def)
  note pj = positions_singleD [OF j]
  show ?case
    unfolding cells_coerced_def
  proof (intro conjI allI impI)
    show "columns df' = columns df" using ih c1 by (simp add: cells_coerced_def)
    show "length (rows df') = length (rows df)" using ih l1 by (simp add: cells_coerced_def)
  next
    fix i assume i: "i < length (rows df)"
    then show "length (rows df' ! i) = length (rows df ! i)"
      using ih l1 r1 [OF i] by (simp add: cells_coerced_def)
  next
    fix i j' assume i: "i < length (rows df)" and j': "j' < length (columns df)"
      and jr: "j' < length (rows df ! i)"
    have a: "rows df' ! i ! j' =
        (if columns df ! j' \<in> set cols then coerce_cell num (rows df1 ! i ! j') else rows df1 ! i ! j')"
      using ih i j' jr l1 c1 r1 [OF i] by (simp add: cells_coerced_def)
    show "rows df' ! i ! j' =
        (if columns df ! j' \<in> set (col # cols) then coerce_cell num (rows df ! i ! j')
         else rows df ! i ! j')"
    proof (cases "j' = j")
      case True
      then have "rows df1 ! i ! j' = coerce_cell num (rows df ! i ! j')"
        using r1 [OF i] jr by simp
      with a True pj(2) show ?thesis by (simp add: coerce_cell_idem)
    next
      case False
      then have "rows df1 ! i ! j' = rows df ! i ! j'" using r1 [OF i] by simp
      moreover have "columns df ! j' \<noteq> col" using pj(3) [OF j'] False by blast
      ultimately show ?thesis using a by simp
    qed
  qed
qed

lemma coerce_columns_succeeds:
  "(\<forall>c\<in>set cols. \<exists>j. positions c (columns df) = [j]) \<Longrightarrow> \<exists>df'. coerce_columns num cols df = Inr df'"
proof (induction cols arbitrary: df)
  case Nil
  then show ?case by simp
next
  case (Cons col cols)
  then obtain j where j: "positions col (columns df) = [j]" by auto
  have "\<forall>c\<in>set cols. \<exists>j'. positions c (columns (map_column j (coerce_cell num) df)) = [j']"
    using Cons.prems by (simp add: map_column_def)
  from Cons.IH [OF this] show ?case using coerce_columns_step [OF j] by simp
qed


lemma contains_Grade: "contains ''Grade'' ''Grade''"
  by (simp add: starts_with_def)

lemma contains_Grade_self: "contains ''Grade'' ''Grade'' \<or> starts_with ''Q'' ''Grade''"
  by (simp add: starts_with_def)

lemma coerced_cells:
  assumes "coerced num df = Inr df2"
  shows "cells_coerced num (grade_q_columns (clean_column_names df)) (clean_column_names df) df2"
  using assms by (simp add: coerced_def Let_def coerce_columns_cells)

lemma coerced_succeeds:
  assumes "distinct (grade_q_columns (clean_column_names df))"
  shows "\<exists>df2. coerced num df = Inr df2"
proof -
  define df1 where "df1 = clean_column_names df"
  have "\<exists>j. positions c (columns df1) = [j]" if "c \<in> set (grade_q_columns df1)" for c
    using that assms unfolding df1_def [symmetric] grade_q_columns_def
    by (intro positions_single [where P = "\<lambda>col. contains ''Grade'' col \<or> starts_with ''Q'' col"]) auto
  then have "\<exists>df'. coerce_columns num (grade_q_columns df1) df1 = Inr df'"
    by (intro coerce_columns_succeeds) blast
  then show ?thesis by (simp add: coerced_def Let_def df1_def)
qed

lemma coerce_cell_cases:
  "coerce_cell num c = Num x \<Longrightarrow>
     (c = NaN \<longrightarrow> x = 0) \<and> (c = Str ''-'' \<longrightarrow> x = 0)
     \<and> (\<forall>s. c = Str s \<and> num s = None \<longrightarrow> x = 0)
     \<and> (\<forall>y. c = Num y \<longrightarrow> x = y)
     \<and> (\<forall>s y. c = Str s \<and> s \<noteq> ''-'' \<and> num s = Some y \<longrightarrow> x = y)"
  by (cases c) (auto simp: coerce_cell_def fillna_def to_numeric_def replace_dash_def split: option.splits if_splits)

text \<open>
  Claim C7. On a rectangular frame in which no selected label occurs twice, the loop of
  \<^verbatim>\<open>process_dataframe\<close> succeeds. The selected columns are those whose cleaned label
  contains \<open>Grade\<close> or starts with \<open>Q\<close>; afterwards each of their cells is a number,
  never the sentinel and never missing: \<open>0\<close> where the cell was the sentinel, missing or
  did not parse, and the number it held or denoted otherwise. Every other cell is as it
  was.
\<close>

theorem coerced_cells_numeric:
  assumes rect: "rectangular df"
    and dist: "distinct (grade_q_columns (clean_column_names df))"
  shows "\<exists>df2. coerced num df = Inr df2
     \<and> columns df2 = map clean_column_name (columns df)
     \<and> length (rows df2) = length (rows df)
     \<and> (\<forall>i<length (rows df). \<forall>j<length (columns df).
          (if contains ''Grade'' (columns df2 ! j) \<or> starts_with ''Q'' (columns df2 ! j)
           then rows df2 ! i ! j \<noteq> Str ''-'' \<and> rows df2 ! i ! j \<noteq> NaN
             \<and> (\<exists>x. rows df2 ! i ! j = Num x
                  \<and> (rows df ! i ! j = NaN \<longrightarrow> x = 0)
                  \<and> (rows df ! i ! j = Str ''-'' \<longrightarrow> x = 0)
                  \<and> (\<forall>s. rows df ! i ! j = Str s \<and> num s = None \<longrightarrow> x = 0)
                  \<and> (\<forall>y. rows df ! i ! j = Num y \<longrightarrow> x = y)
                  \<and> (\<forall>s y. rows df ! i ! j = Str s \<and> s \<noteq> ''-'' \<and> num s = Some y \<longrightarrow> x = y))
           else rows df2 ! i ! j = rows df ! i ! j))"
proof -
  from coerced_succeeds [OF dist] obtain df2 where ev: "coerced num df = Inr df2" by blast
  define df1 where "df1 = clean_column_names df"
  define cols where "cols = grade_q_columns df1"
  have cc: "cells_coerced num cols df1 df2"
    using coerced_cells [OF ev] by (simp add: df1_def cols_def)
  have c1: "columns df1 = map clean_column_name (columns df)"
    and r1: "rows df1 = rows df"
    by (simp_all add: df1_def clean_column_names_def)
  have c2: "columns df2 = map clean_column_name (columns df)"
    using cc c1 by (simp add: cells_coerced_def)
  have l2: "length (rows df2) = length (rows df)"
    using cc r1 by (simp add: cells_coerced_def)
  have cell: "rows df2 ! i ! j =
      (if contains ''Grade'' (columns df2 ! j) \<or> starts_with ''Q'' (columns df2 ! j)
       then coerce_cell num (rows df ! i ! j) else rows df ! i ! j)"
    if i: "i < length (rows df)" and j: "j < length (columns df)" for i j
  proof -
    have "length (rows df ! i) = length (columns df)"
      using rect i by (simp add: rectangular_def list_all_length)
    with j have jr: "j < length (rows df1 ! i)" by (simp add: r1)
    have j1: "j < length (columns df1)" using j by (simp add: c1)
    have m: "columns df1 ! j \<in> set cols \<longleftrightarrow>
        contains ''Grade'' (columns df1 ! j) \<or> starts_with ''Q'' (columns df1 ! j)"
      using j1 by (auto simp: cols_def grade_q_columns_def)
    have "rows df2 ! i ! j =
        (if columns df1 ! j \<in> set cols then coerce_cell num (rows df1 ! i ! j) else rows df1 ! i ! j)"
      using cc i j1 jr by (simp add: cells_coerced_def r1)
    then show ?thesis using m by (simp add: r1 c1 c2)
  qed
  have main: "if contains ''Grade'' (columns df2 ! j) \<or> starts_with ''Q'' (columns df2 ! j)
           then rows df2 ! i ! j \<noteq> Str ''-'' \<and> rows df2 ! i ! j \<noteq> NaN
             \<and> (\<exists>x. rows df2 ! i ! j = Num x
                  \<and> (rows df ! i ! j = NaN \<longrightarrow> x = 0)
                  \<and> (rows df ! i ! j = Str ''-'' \<longrightarrow> x = 0)
                  \<and> (\<forall>s. rows df ! i ! j = Str s \<and> num s = None \<longrightarrow> x = 0)
                  \<and> (\<forall>y. rows df ! i ! j = Num y \<longrightarrow> x = y)
                  \<and> (\<forall>s y. rows df ! i ! j = Str s \<and> s \<noteq> ''-'' \<and> num s = Some y \<longrightarrow> x = y))
           else rows df2 ! i ! j = rows df ! i ! j"
    if i: "i < length (rows df)" and j: "j < length (columns df)" for i j
  proof (cases "contains ''Grade'' (columns df2 ! j) \<or> starts_with ''Q'' (columns df2 ! j)")
    case True
    obtain x where x: "coerce_cell num (rows df ! i ! j) = Num x"
      using coerce_cell_Num by blast
    have e: "rows df2 ! i ! j = Num x" using cell [OF i j] True x by simp
    have n: "rows df2 ! i ! j \<noteq> Str ''-''" "rows df2 ! i ! j \<noteq> NaN" using e by simp_all
    show ?thesis unfolding if_P [OF True] using n e coerce_cell_cases [OF x] by blast
  next
    case False
    then show ?thesis using cell [OF i j] by simp
  qed
  show ?thesis using ev c2 l2 main by blast
qed

theorem coerced_cells_numeric_witness:
  "rectangular export_frame
   \<and> distinct (grade_q_columns (clean_column_names export_frame))
   \<and> coerced parse_decimal export_frame =
       Inr \<lparr>columns = [''ResearchId'', ''Grade'', ''Q1'', ''State''],
            rows = [[Num 1, Num 80, Num 1, Str ''Finished''],
                    [Num 1, Num 0, Num 0, Str ''In progress''],
                    [Num 2, Num 0, Num 0, Str ''Finished'']]\<rparr>
   \<and> (\<exists>df2. coerced parse_decimal export_frame = Inr df2
     \<and> columns df2 = map clean_column_name (columns export_frame)
     \<and> length (rows df2) = length (rows export_frame)
     \<and> (\<forall>i<length (rows export_frame). \<forall>j<length (columns export_frame).
          (if contains ''Grade'' (columns df2 ! j) \<or> starts_with ''Q'' (columns df2 ! j)
           then rows df2 ! i ! j \<noteq> Str ''-'' \<and> rows df2 ! i ! j \<noteq> NaN
             \<and> (\<exists>x. rows df2 ! i ! j = Num x
                  \<and> (rows export_frame ! i ! j = NaN \<longrightarrow> x = 0)
                  \<and> (rows export_frame ! i ! j = Str ''-'' \<longrightarrow> x = 0)
                  \<and> (\<forall>s. rows export_frame ! i ! j = Str s \<and> parse_decimal s = None \<longrightarrow> x = 0)
                  \<and> (\<forall>y. rows export_frame ! i ! j = Num y \<longrightarrow> x = y)
                  \<and> (\<forall>s y. rows export_frame ! i ! j = Str s \<and> s \<noteq> ''-''
                        \<and> parse_decimal s = Some y \<longrightarrow> x = y))
           else rows df2 ! i ! j = rows export_frame ! i ! j)))"
proof -
  have r: "rectangular export_frame" by code_simp
  have d: "distinct (grade_q_columns (clean_column_names export_frame))" by code_simp
  have ev: "coerced parse_decimal export_frame =
       Inr \<lparr>columns = [''ResearchId'', ''Grade'', ''Q1'', ''State''],
            rows = [[Num 1, Num 80, Num 1, Str ''Finished''],
                    [Num 1, Num 0, Num 0, Str ''In progress''],
                    [Num 2, Num 0, Num 0, Str ''Finished'']]\<rparr>" by code_simp
  note th = coerced_cells_numeric [OF r d, of parse_decimal]
  show ?thesis using r d ev th by (intro conjI) assumption+
qed

section \<open>Zero-fill and deduplication in \<open>process_dataframe\<close>\<close>


lemma dedupe_Inr_grade:
  assumes "drop_duplicate_research_ids srt df = Inr out"
  shows "\<exists>g. positions ''Grade'' (columns df) = [g]"
proof (cases "sort_values_desc srt ''Grade'' df")
  case (Inl e)
  with assms show ?thesis by (simp add: drop_duplicate_research_ids_def)
next
  case (Inr df1)
  from sort_values_desc_Inr [OF this] show ?thesis by blast
qed

lemma cell_ge_zero:
  "cell_ge c (Num 0) \<Longrightarrow> \<exists>x\<ge>0. c = Num x"
  by (cases c) (auto simp: cell_ge_def)

text \<open>
  Claim C1, as amended. \<^verbatim>\<open>process_dataframe\<close> fills the missing grades with \<open>0.0\<close>
  before it deduplicates. Whenever it returns a frame, the frame \<open>pre\<close> handed to the
  deduplication has a number in every cell of its \<open>Grade\<close> column; a grade that was the
  sentinel, missing or did not parse is \<open>0\<close> there and competes as \<open>0\<close>: the row kept for
  the \<open>ResearchId\<close> of such a row has a grade that is at least \<open>0\<close>.
\<close>

theorem zero_fill_before_dedupe:
  assumes srt: "sorts_descending srt"
    and rect: "rectangular df"
    and k: "positions ''ResearchId'' (map clean_column_name (columns df)) = [k]"
    and ev: "process_dataframe srt num df = Inr out"
  shows "\<exists>pre dd g. coerced num df = Inr pre
     \<and> drop_duplicate_research_ids srt pre = Inr dd
     \<and> out = drop_unnecessary_columns dd [''State'', ''TimeTaken'']
     \<and> positions ''Grade'' (columns pre) = [g]
     \<and> (\<forall>r\<in>set (rows pre). \<exists>x. r ! g = Num x)
     \<and> (\<forall>i<length (rows df).
          rows df ! i ! g = NaN \<or> rows df ! i ! g = Str ''-''
            \<or> (\<exists>s. rows df ! i ! g = Str s \<and> num s = None) \<longrightarrow>
          rows pre ! i ! g = Num 0
          \<and> (\<exists>r\<in>set (rows dd). r ! k = rows pre ! i ! k \<and> (\<exists>x\<ge>0. r ! g = Num x)))"
proof -
  from ev obtain pre where pre: "coerced num df = Inr pre"
    by (cases "coerced num df") (auto simp: process_dataframe_def)
  from ev pre obtain dd where dd: "drop_duplicate_research_ids srt pre = Inr dd"
    by (cases "drop_duplicate_research_ids srt pre") (auto simp: process_dataframe_def)
  from ev pre dd have out: "out = drop_unnecessary_columns dd [''State'', ''TimeTaken'']"
    by (simp add: process_dataframe_def)
  from dedupe_Inr_grade [OF dd] obtain g where g: "positions ''Grade'' (columns pre) = [g]" by blast
  define df1 where "df1 = clean_column_names df"
  define cols where "cols = grade_q_columns df1"
  have cc: "cells_coerced num cols df1 pre"
    using coerced_cells [OF pre] by (simp add: df1_def cols_def)
  have c1: "columns df1 = map clean_column_name (columns df)" and r1: "rows df1 = rows df"
    by (simp_all add: df1_def clean_column_names_def)
  have cp: "columns pre = columns df1" and lp: "length (rows pre) = length (rows df)"
    using cc r1 by (simp_all add: cells_coerced_def)
  note pg = positions_singleD [OF g]
  have gl: "g < length (columns df1)" and gn: "columns df1 ! g = ''Grade''"
    using pg(1,2) cp by simp_all
  have gin: "columns df1 ! g \<in> set cols"
  proof -
    have "columns df1 ! g \<in> set (columns df1)" using gl by simp
    then show ?thesis
      unfolding cols_def grade_q_columns_def using contains_Grade_self gn by simp
  qed
  have glen: "g < length (rows df ! i)" if "i < length (rows df)" for i
    using rect that gl c1 by (simp add: rectangular_def list_all_length)
  have cell: "rows pre ! i ! g = coerce_cell num (rows df ! i ! g)" if i: "i < length (rows df)" for i
    using cc i gl glen [OF i] gin by (simp add: cells_coerced_def r1)
  have nums: "\<exists>x. r ! g = Num x" if "r \<in> set (rows pre)" for r
  proof -
    from that obtain i where "i < length (rows pre)" "r = rows pre ! i"
      by (auto simp: in_set_conv_nth)
    then show ?thesis using cell [of i] lp coerce_cell_Num [of num] by simp
  qed
  have ns: "\<not> list_ex (\<lambda>r. is_Str (r ! g)) (rows pre)"
  proof -
    have "\<not> is_Str (r ! g)" if "r \<in> set (rows pre)" for r
      using nums [OF that] by (auto simp: is_Str_def)
    then show ?thesis by (auto simp: list_ex_iff)
  qed
  have kp: "positions ''ResearchId'' (columns pre) = [k]" using k cp c1 by simp
  have nm: "\<not> (list_ex (\<lambda>r. is_Str (r ! g)) (rows pre) \<and> list_ex (\<lambda>r. is_Num (r ! g)) (rows pre))"
    using ns by simp
  have sm: "mset (srt (\<lambda>r. r ! g) (rows pre)) = mset (rows pre)"
    and so: "sorted_wrt (\<lambda>a b. cell_ge (a ! g) (b ! g)) (srt (\<lambda>r. r ! g) (rows pre))"
    using srt ns by (simp_all add: sorts_descending_def)
  from dedupe_props [where srt = srt, OF kp g nm sm so] dd have
    im: "(\<lambda>r. r ! k) ` set (rows dd) = (\<lambda>r. r ! k) ` set (rows pre)"
    and mx: "\<forall>r\<in>set (rows dd). \<forall>r'\<in>set (rows pre).
           r' ! k = r ! k \<longrightarrow> cell_ge (r ! g) (r' ! g)"
    by auto
  have miss: "rows pre ! i ! g = Num 0
          \<and> (\<exists>r\<in>set (rows dd). r ! k = rows pre ! i ! k \<and> (\<exists>x\<ge>0. r ! g = Num x))"
    if i: "i < length (rows df)"
      and m: "rows df ! i ! g = NaN \<or> rows df ! i ! g = Str ''-''
            \<or> (\<exists>s. rows df ! i ! g = Str s \<and> num s = None)" for i
  proof -
    obtain x where x: "coerce_cell num (rows df ! i ! g) = Num x" using coerce_cell_Num by blast
    from coerce_cell_cases [OF x] m have "x = 0" by blast
    with x cell [OF i] have z: "rows pre ! i ! g = Num 0" by simp
    have mem: "rows pre ! i \<in> set (rows pre)" using i lp by simp
    then have "rows pre ! i ! k \<in> (\<lambda>r. r ! k) ` set (rows dd)" using im by blast
    then obtain r where r: "r \<in> set (rows dd)" "r ! k = rows pre ! i ! k" by auto
    from mx r mem have "cell_ge (r ! g) (rows pre ! i ! g)" by simp
    then have "cell_ge (r ! g) (Num 0)" using z by simp
    from cell_ge_zero [OF this] r z show ?thesis by blast
  qed
  show ?thesis using pre dd out g nums miss by blast
qed

theorem zero_fill_before_dedupe_witness:
  "sorts_descending stable_sort_desc
   \<and> rectangular export_frame
   \<and> positions ''ResearchId'' (map clean_column_name (columns export_frame)) = [0]
   \<and> process_dataframe stable_sort_desc parse_decimal export_frame =
       Inr \<lparr>columns = [''ResearchId'', ''Grade'', ''Q1''],
            rows = [[Num 1, Num 80, Num 1], [Num 2, Num 0, Num 0]]\<rparr>
   \<and> (\<exists>pre dd g. coerced parse_decimal export_frame = Inr pre
     \<and> drop_duplicate_research_ids stable_sort_desc pre = Inr dd
     \<and> \<lparr>columns = [''ResearchId'', ''Grade'', ''Q1''],
            rows = [[Num 1, Num 80, Num 1], [Num 2, Num 0, Num 0]]\<rparr>
         = drop_unnecessary_columns dd [''State'', ''TimeTaken'']
     \<and> positions ''Grade'' (columns pre) = [g]
     \<and> (\<forall>r\<in>set (rows pre). \<exists>x. r ! g = Num x)
     \<and> (\<forall>i<length (rows export_frame).
          rows export_frame ! i ! g = NaN \<or> rows export_frame ! i ! g = Str ''-''
            \<or> (\<exists>s. rows export_frame ! i ! g = Str s \<and> parse_decimal s = None) \<longrightarrow>
          rows pre ! i ! g = Num 0
          \<and> (\<exists>r\<in>set (rows dd). r ! 0 = rows pre ! i ! 0 \<and> (\<exists>x\<ge>0. r ! g = Num x))))"
proof -
  have r: "rectangular export_frame" by code_simp
  have k: "positions ''ResearchId'' (map clean_column_name (columns export_frame)) = [0]"
    by code_simp
  have ev: "process_dataframe stable_sort_desc parse_decimal export_frame =
       Inr \<lparr>columns = [''ResearchId'', ''Grade'', ''Q1''],
            rows = [[Num 1, Num 80, Num 1], [Num 2, Num 0, Num 0]]\<rparr>" by code_simp
  note th = zero_fill_before_dedupe [OF stable_sort_desc_sorts r k ev]
  show ?thesis using stable_sort_desc_sorts r k ev th by (intro conjI) assumption+
qed

text \<open>
  The claim as stated fails. With a sentinel and a negative grade for the same student,
  the frame handed to the deduplication holds \<open>0\<close>, not a missing value, for the sentinel;
  the row kept is the zero-filled one, where the order of the specification keeps the
  graded one.
\<close>

theorem zero_fill_order_counterexample:
  "coerced parse_decimal negative_frame =
     Inr \<lparr>columns = [''ResearchId'', ''Grade''], rows = [[Num 1, Num 0], [Num 1, Num (- 5)]]\<rparr>
   \<and> process_dataframe stable_sort_desc parse_decimal negative_frame =
       Inr \<lparr>columns = [''ResearchId'', ''Grade''], rows = [[Num 1, Num 0]]\<rparr>
   \<and> reference_process stable_sort_desc parse_decimal negative_frame =
       Inr \<lparr>columns = [''ResearchId'', ''Grade''], rows = [[Num 1, Num (- 5)]]\<rparr>"
  by code_simp

section \<open>The caller's frame is left unchanged\<close>


lemma updates_only_refl: "updates_only r s s"
  by (simp add: updates_only_def)

lemma updates_only_update: "updates_only r s (s[r := f])"
  by (simp add: updates_only_def)

lemma updates_only_trans:
  "updates_only r s s1 \<Longrightarrow> updates_only r s1 s2 \<Longrightarrow> updates_only r s s2"
  by (simp add: updates_only_def)

lemma coerce_columns_in_sim:
  assumes "r < length s"
  shows "updates_only r s (snd (coerce_columns_in num cols r s))
     \<and> (case coerce_columns num cols (s ! r) of
           Inl e \<Rightarrow> fst (coerce_columns_in num cols r s) = Inl e
         | Inr f \<Rightarrow> fst (coerce_columns_in num cols r s) = Inr ()
                     \<and> snd (coerce_columns_in num cols r s) ! r = f)"
  using assms
proof (induction cols arbitrary: s)
  case Nil
  then show ?case by (simp add: updates_only_refl)
next
  case (Cons col cols)
  show ?case
  proof (cases "positions col (columns (s ! r))")
    case Nil
    then show ?thesis by (simp add: updates_only_refl)
  next
    case (Cons j js)
    show ?thesis
    proof (cases js)
      case (Cons j' js')
      with \<open>positions col (columns (s ! r)) = j # js\<close> show ?thesis
        by (simp add: updates_only_refl)
    next
      case Nil
      with \<open>positions col (columns (s ! r)) = j # js\<close>
      have p: "positions col (columns (s ! r)) = [j]" by simp
      define s1 where "s1 = s[r := map_column j replace_dash (s ! r)]"
      define s2 where "s2 = s1[r := map_column j (\<lambda>c. fillna 0 (to_numeric num c)) (s1 ! r)]"
      have l2: "r < length s2" using Cons.prems by (simp add: s2_def s1_def)
      have f2: "s2 ! r = map_column j (\<lambda>c. fillna 0 (to_numeric num c)) (map_column j replace_dash (s ! r))"
        using Cons.prems by (simp add: s2_def s1_def)
      have u2: "updates_only r s s2"
        unfolding s2_def s1_def by (simp add: updates_only_def)
      have ev: "coerce_columns_in num (col # cols) r s = coerce_columns_in num cols r s2"
        using p by (simp add: s2_def s1_def Let_def)
      have ev': "coerce_columns num (col # cols) (s ! r) = coerce_columns num cols (s2 ! r)"
        using p f2 by simp
      from Cons.IH [OF l2] u2 show ?thesis
        unfolding ev ev' using updates_only_trans by blast
    qed
  qed
qed

lemma drop_duplicate_research_ids_in_sim:
  assumes "r < length s"
  shows "updates_only r s (snd (drop_duplicate_research_ids_in srt r s))
     \<and> (case drop_duplicate_research_ids srt (s ! r) of
           Inl e \<Rightarrow> fst (drop_duplicate_research_ids_in srt r s) = Inl e
         | Inr f \<Rightarrow> fst (drop_duplicate_research_ids_in srt r s) = Inr r
                     \<and> snd (drop_duplicate_research_ids_in srt r s) ! r = f)"
  using assms
  by (auto simp: drop_duplicate_research_ids_in_def drop_duplicate_research_ids_def Let_def
      updates_only_def split: sum.splits)

lemma drop_unnecessary_columns_in_sim:
  assumes "r < length s"
  shows "updates_only r s (snd (drop_unnecessary_columns_in r cols s))
     \<and> fst (drop_unnecessary_columns_in r cols s) = r
     \<and> snd (drop_unnecessary_columns_in r cols s) ! r = drop_unnecessary_columns (s ! r) cols"
  using assms
proof (induction cols arbitrary: s)
  case Nil
  then show ?case by (simp add: updates_only_refl)
next
  case (Cons col cols)
  define s1 where "s1 = (if col \<in> set (columns (s ! r)) then s[r := drop_label col (s ! r)] else s)"
  have l1: "r < length s1" using Cons.prems by (simp add: s1_def)
  have u1: "updates_only r s s1" by (simp add: s1_def updates_only_def)
  have f1: "s1 ! r = (if col \<in> set (columns (s ! r)) then drop_label col (s ! r) else s ! r)"
    using Cons.prems by (simp add: s1_def)
  have ev: "drop_unnecessary_columns_in r (col # cols) s = drop_unnecessary_columns_in r cols s1"
    by (simp add: s1_def)
  have ev': "drop_unnecessary_columns (s ! r) (col # cols) = drop_unnecessary_columns (s1 ! r) cols"
    by (simp add: f1)
  from Cons.IH [OF l1] u1 show ?case
    unfolding ev ev' using updates_only_trans by blast
qed

lemma process_dataframe_in_sim:
  assumes df: "df < length s"
  shows "updates_only (length s) (s @ [s ! df]) (snd (process_dataframe_in srt num df s))
     \<and> (case process_dataframe srt num (s ! df) of
           Inl e \<Rightarrow> fst (process_dataframe_in srt num df s) = Inl e
         | Inr f \<Rightarrow> fst (process_dataframe_in srt num df s) = Inr (length s)
                     \<and> snd (process_dataframe_in srt num df s) ! length s = f)"
proof -
  define r where "r = length s"
  define s1 where "s1 = s @ [s ! df]"
  define s2 where "s2 = s1[r := clean_column_names (s1 ! r)]"
  define cols where "cols = grade_q_columns (s2 ! r)"
  have l1: "r < length s1" and l2: "r < length s2" by (simp_all add: s1_def s2_def r_def)
  have f2: "s2 ! r = clean_column_names (s ! df)"
    by (simp add: s2_def s1_def r_def)
  have u2: "updates_only r s1 s2" by (simp add: s2_def updates_only_def)
  have co: "coerced num (s ! df) = coerce_columns num cols (s2 ! r)"
    by (simp add: coerced_def Let_def cols_def f2)
  obtain res3 s3 where c3: "coerce_columns_in num cols r s2 = (res3, s3)" by force
  from coerce_columns_in_sim [OF l2, of num cols, unfolded c3 fst_conv snd_conv]
  have u3: "updates_only r s2 s3"
    and k3: "case coerce_columns num cols (s2 ! r) of
           Inl e \<Rightarrow> res3 = Inl e | Inr f \<Rightarrow> res3 = Inr () \<and> s3 ! r = f" by simp_all
  have ev: "process_dataframe_in srt num df s =
      (case (res3, s3) of
        (Inl e, s3) \<Rightarrow> (Inl e, s3)
      | (Inr u, s3) \<Rightarrow>
          (case drop_duplicate_research_ids_in srt (length s) s3 of
             (Inl e, s4) \<Rightarrow> (Inl e, s4)
           | (Inr df, s4) \<Rightarrow>
               (case drop_unnecessary_columns_in df [''State'', ''TimeTaken''] s4 of
                  (df, s5) \<Rightarrow> (Inr df, s5))))"
    unfolding process_dataframe_in_def copy_def clean_column_names_in_def
    using c3 by (simp add: r_def s1_def s2_def cols_def)
  show ?thesis
  proof (cases "coerce_columns num cols (s2 ! r)")
    case (Inl e)
    with k3 have "res3 = Inl e" by simp
    with ev have "process_dataframe_in srt num df s = (Inl e, s3)" by simp
    moreover have "process_dataframe srt num (s ! df) = Inl e"
      using Inl co by (simp add: process_dataframe_def)
    moreover have "updates_only r s1 s3" using u2 u3 by (rule updates_only_trans)
    ultimately show ?thesis by (simp add: r_def s1_def)
  next
    case (Inr f3)
    with k3 have r3: "res3 = Inr ()" and f3: "s3 ! r = f3" by simp_all
    have l3: "r < length s3" using u3 l2 by (simp add: updates_only_def)
    obtain res4 s4 where c4: "drop_duplicate_research_ids_in srt r s3 = (res4, s4)" by force
    from drop_duplicate_research_ids_in_sim [OF l3, of srt, unfolded c4 fst_conv snd_conv]
    have u4: "updates_only r s3 s4"
      and k4: "case drop_duplicate_research_ids srt (s3 ! r) of
           Inl e \<Rightarrow> res4 = Inl e | Inr f \<Rightarrow> res4 = Inr r \<and> s4 ! r = f" by simp_all
    have u14: "updates_only r s1 s4"
      using u2 u3 u4 updates_only_trans by blast
    show ?thesis
    proof (cases "drop_duplicate_research_ids srt f3")
      case (Inl e)
      with k4 f3 have "res4 = Inl e" by simp
      with ev r3 c4 [unfolded r_def] have "process_dataframe_in srt num df s = (Inl e, s4)" by simp
      moreover have "process_dataframe srt num (s ! df) = Inl e"
        using Inl Inr co by (simp add: process_dataframe_def)
      ultimately show ?thesis using u14 by (simp add: r_def s1_def)
    next
      case (Inr f4)
      with k4 f3 have r4: "res4 = Inr r" and f4: "s4 ! r = f4" by simp_all
      have l4: "r < length s4" using u4 l3 by (simp add: updates_only_def)
      obtain r5 s5 where c5: "drop_unnecessary_columns_in r [''State'', ''TimeTaken''] s4 = (r5, s5)"
        by force
      from drop_unnecessary_columns_in_sim
        [OF l4, of "[''State'', ''TimeTaken'']", unfolded c5 fst_conv snd_conv]
      have u5: "updates_only r s4 s5" and r5: "r5 = r"
        and f5: "s5 ! r = drop_unnecessary_columns (s4 ! r) [''State'', ''TimeTaken'']"
        by simp_all
      have "process_dataframe_in srt num df s = (Inr r, s5)"
        using ev r3 c4 [unfolded r_def] r4 [unfolded r_def] c5 [unfolded r_def] r5
        by (simp add: r_def)
      moreover have "process_dataframe srt num (s ! df)
          = Inr (drop_unnecessary_columns f4 [''State'', ''TimeTaken''])"
        using Inr \<open>coerce_columns num cols (s2 ! r) = Inr f3\<close> co
        by (simp add: process_dataframe_def)
      moreover have "updates_only r s1 s5" using u14 u5 by (rule updates_only_trans)
      ultimately show ?thesis using f5 f4 by (simp add: r_def s1_def)
    qed
  qed
qed


text \<open>
  Claim C10. \<^verbatim>\<open>process_dataframe\<close> allocates one new frame object, the copy, and changes
  no other: every object of the store, the caller's frame among them, has the same
  labels, rows and cells after the call as before, whether the call returns or raises.
  When it returns, it returns the new object, which holds the processed frame.
\<close>

theorem process_dataframe_leaves_input:
  assumes df: "df < length s"
    and ev: "process_dataframe_in srt num df s = (res, s')"
  shows "length s' = Suc (length s) \<and> take (length s) s' = s \<and> s' ! df = s ! df
     \<and> (case res of
           Inl e \<Rightarrow> process_dataframe srt num (s ! df) = Inl e
         | Inr r \<Rightarrow> r = length s \<and> r \<noteq> df
                     \<and> process_dataframe srt num (s ! df) = Inr (s' ! r))"
proof -
  from process_dataframe_in_sim [OF df, of srt num, unfolded ev fst_conv snd_conv]
  have u: "updates_only (length s) (s @ [s ! df]) s'"
    and k: "case process_dataframe srt num (s ! df) of
           Inl e \<Rightarrow> res = Inl e | Inr f \<Rightarrow> res = Inr (length s) \<and> s' ! length s = f"
    by simp_all
  from u have len: "length s' = Suc (length s)" by (simp add: updates_only_def)
  have old: "s' ! i = s ! i" if "i < length s" for i
  proof -
    from u that have "s' ! i = (s @ [s ! df]) ! i" by (simp add: updates_only_def)
    with that show ?thesis by (simp add: nth_append)
  qed
  have tk: "take (length s) s' = s"
    by (rule nth_equalityI) (simp_all add: len old)
  have res: "case res of
           Inl e \<Rightarrow> process_dataframe srt num (s ! df) = Inl e
         | Inr r \<Rightarrow> r = length s \<and> r \<noteq> df
                     \<and> process_dataframe srt num (s ! df) = Inr (s' ! r)"
    using k df by (cases "process_dataframe srt num (s ! df)") auto
  show ?thesis using len tk old [OF df] res by simp
qed

theorem process_dataframe_leaves_input_witness:
  "0 < length [export_frame]
   \<and> process_dataframe_in stable_sort_desc parse_decimal 0 [export_frame] =
       (Inr 1, [export_frame,
                \<lparr>columns = [''ResearchId'', ''Grade'', ''Q1''],
                 rows = [[Num 1, Num 80, Num 1], [Num 2, Num 0, Num 0]]\<rparr>])
   \<and> length [export_frame,
                \<lparr>columns = [''ResearchId'', ''Grade'', ''Q1''],
                 rows = [[Num 1, Num 80, Num 1], [Num 2, Num 0, Num 0]]\<rparr>]
       = Suc (length [export_frame])
   \<and> take (length [export_frame]) [export_frame,
                \<lparr>columns = [''ResearchId'', ''Grade'', ''Q1''],
                 rows = [[Num 1, Num 80, Num 1], [Num 2, Num 0, Num 0]]\<rparr>] = [export_frame]
   \<and> [export_frame,
                \<lparr>columns = [''ResearchId'', ''Grade'', ''Q1''],
                 rows = [[Num 1, Num 80, Num 1], [Num 2, Num 0, Num 0]]\<rparr>] ! 0
       = [export_frame] ! 0
   \<and> (case Inr 1 of
           Inl e \<Rightarrow> process_dataframe stable_sort_desc parse_decimal ([export_frame] ! 0) = Inl e
         | Inr r \<Rightarrow> r = length [export_frame] \<and> r \<noteq> 0
                     \<and> process_dataframe stable_sort_desc parse_decimal ([export_frame] ! 0)
                         = Inr ([export_frame,
                \<lparr>columns = [''ResearchId'', ''Grade'', ''Q1''],
                 rows = [[Num 1, Num 80, Num 1], [Num 2, Num 0, Num 0]]\<rparr>] ! r))"
proof -
  have l: "0 < length [export_frame]" by simp
  have ev: "process_dataframe_in stable_sort_desc parse_decimal 0 [export_frame] =
       (Inr 1, [export_frame,
                \<lparr>columns = [''ResearchId'', ''Grade'', ''Q1''],
                 rows = [[Num 1, Num 80, Num 1], [Num 2, Num 0, Num 0]]\<rparr>])"
    by code_simp
  note th = process_dataframe_leaves_input [OF l ev]
  show ?thesis using l ev th by (elim conjE) (intro conjI; assumption)
qed

section \<open>The threshold filter\<close>


lemma filter_eq_upt: "j < n \<Longrightarrow> filter (\<lambda>i. i = j) [0..<n] = [j]"
proof (induction n)
  case 0
  then show ?case by simp
next
  case (Suc n)
  show ?case
  proof (cases "j = n")
    case True
    then have "filter (\<lambda>i. i = j) [0..<n] = []" by (auto simp: filter_empty_conv)
    with True show ?thesis by simp
  next
    case False
    with Suc show ?thesis by simp
  qed
qed

lemma positions_distinct:
  assumes "distinct cols" and "j < length cols"
  shows "positions (cols ! j) cols = [j]"
proof -
  have "filter (\<lambda>i. cols ! i = cols ! j) [0..<length cols] = filter (\<lambda>i. i = j) [0..<length cols]"
    by (rule filter_cong) (auto simp: nth_eq_iff_index_eq assms)
  then show ?thesis using assms(2) by (simp add: positions_def filter_eq_upt)
qed

lemma filter_as_nth:
  "filter P xs = map (\<lambda>j. xs ! j) (filter (\<lambda>j. P (xs ! j)) [0..<length xs])"
proof -
  have "filter P (map (\<lambda>j. xs ! j) [0..<length xs])
        = map (\<lambda>j. xs ! j) (filter (\<lambda>j. P (xs ! j)) [0..<length xs])"
    by (simp add: filter_map comp_def)
  then show ?thesis by (simp add: map_nth)
qed

lemma selected_positions_distinct:
  assumes "distinct (columns df)"
  shows "selected_positions (grade_columns df) df
         = filter (\<lambda>j. contains ''Grade'' (columns df ! j)) [0..<length (columns df)]"
proof -
  define cols where "cols = columns df"
  define L where "L = filter (\<lambda>j. contains ''Grade'' (cols ! j)) [0..<length cols]"
  have d: "distinct cols" using assms by (simp add: cols_def)
  have "filter (contains ''Grade'') cols = map (\<lambda>j. cols ! j) L"
    unfolding L_def by (rule filter_as_nth)
  then have "concat (map (\<lambda>c. positions c cols) (filter (contains ''Grade'') cols))
        = concat (map (\<lambda>j. positions (cols ! j) cols) L)"
    by (simp add: comp_def)
  also have "map (\<lambda>j. positions (cols ! j) cols) L = map (\<lambda>j. [j]) L"
    by (rule map_cong) (auto simp: L_def positions_distinct [OF d])
  also have "concat (map (\<lambda>j. [j]) L) = L" by (induction L) auto
  finally show ?thesis
    by (simp add: selected_positions_def grade_columns_def cols_def L_def)
qed

text \<open>
  Claim C5. On a frame with distinct labels whose grade columns hold no string, the filter
  keeps, in their order, exactly the rows that have at least 3 cells in the closed
  interval from 1 to 49 among the columns whose label contains \<open>Grade\<close>. The frame of the
  source's test, whose rows are \<open>[50, 55, 60]\<close>, \<open>[60, 65, 70]\<close> and \<open>[70, 75, 80]\<close>, is
  emptied.
\<close>

theorem drop_rows_above_threshold_spec:
  assumes d: "distinct (columns df)"
    and n: "grade_cells_numeric df"
  shows "\<exists>out. drop_rows_above_threshold df = Inr out
     \<and> columns out = columns df
     \<and> rows out =
         filter (\<lambda>r. 3 \<le> length (filter
                   (\<lambda>j. contains ''Grade'' (columns df ! j)
                        \<and> (\<exists>x. r ! j = Num x \<and> 1 \<le> x \<and> x \<le> 49))
                   [0..<length (columns df)])) (rows df)
     \<and> drop_rows_above_threshold threshold_test_frame = Inr (threshold_test_frame\<lparr>rows := []\<rparr>)"
proof -
  define js where "js = selected_positions (grade_columns df) df"
  have js: "js = filter (\<lambda>j. contains ''Grade'' (columns df ! j)) [0..<length (columns df)]"
    unfolding js_def using d by (rule selected_positions_distinct)
  have ns: "\<not> list_ex (\<lambda>r. list_ex (\<lambda>j. is_Str (r ! j)) js) (rows df)"
    using n by (auto simp: list_ex_iff list_all_iff grade_cells_numeric_def js)
  have ib: "in_band c \<longleftrightarrow> (\<exists>x. c = Num x \<and> 1 \<le> x \<and> x \<le> 49)" for c
    by (cases c) (auto simp: in_band_def)
  have cnt: "length (filter (\<lambda>j. in_band (r ! j)) js)
      = length (filter (\<lambda>j. contains ''Grade'' (columns df ! j)
                        \<and> (\<exists>x. r ! j = Num x \<and> 1 \<le> x \<and> x \<le> 49))
                   [0..<length (columns df)])" for r
    by (simp add: js ib conj_commute)
  have ev: "drop_rows_above_threshold df =
      Inr (df\<lparr>rows := filter (\<lambda>r. 3 \<le> length (filter (\<lambda>j. in_band (r ! j)) js)) (rows df)\<rparr>)"
    using ns by (simp add: drop_rows_above_threshold_def Let_def js_def)
  have ex: "drop_rows_above_threshold threshold_test_frame = Inr (threshold_test_frame\<lparr>rows := []\<rparr>)"
    by code_simp
  show ?thesis using ev cnt ex by simp
qed

theorem drop_rows_above_threshold_spec_witness:
  "distinct (columns low_grades_frame)
   \<and> grade_cells_numeric low_grades_frame
   \<and> drop_rows_above_threshold low_grades_frame =
       Inr \<lparr>columns = [''Grade_Test1'', ''Grade_Test2'', ''Grade_Test3'', ''Grade_Sumtest''],
            rows = [[Num 30, Num 40, Num 49, Num 80], [Num 10, Num 20, Num 30, Num 40]]\<rparr>
   \<and> (\<exists>out. drop_rows_above_threshold low_grades_frame = Inr out
     \<and> columns out = columns low_grades_frame
     \<and> rows out =
         filter (\<lambda>r. 3 \<le> length (filter
                   (\<lambda>j. contains ''Grade'' (columns low_grades_frame ! j)
                        \<and> (\<exists>x. r ! j = Num x \<and> 1 \<le> x \<and> x \<le> 49))
                   [0..<length (columns low_grades_frame)])) (rows low_grades_frame)
     \<and> drop_rows_above_threshold threshold_test_frame = Inr (threshold_test_frame\<lparr>rows := []\<rparr>))"
proof -
  have d: "distinct (columns low_grades_frame)" by code_simp
  have n: "grade_cells_numeric low_grades_frame" by code_simp
  have ev: "drop_rows_above_threshold low_grades_frame =
       Inr \<lparr>columns = [''Grade_Test1'', ''Grade_Test2'', ''Grade_Test3'', ''Grade_Sumtest''],
            rows = [[Num 30, Num 40, Num 49, Num 80], [Num 10, Num 20, Num 30, Num 40]]\<rparr>"
    by code_simp
  note th = drop_rows_above_threshold_spec [OF d n]
  show ?thesis using d n ev th by (intro conjI) assumption+
qed

section \<open>The standardised grades\<close>


lemma to_numeric_cases: "to_numeric num c = NaN \<or> (\<exists>x. to_numeric num c = Num x)"
  by (cases c) (auto simp: to_numeric_def split: option.splits)

lemma to_numeric_value:
  "to_numeric num c \<noteq> NaN \<Longrightarrow> to_numeric num c = Num (grade_value (to_numeric num c))"
  using to_numeric_cases [of num c] by (auto simp: grade_value_def)

text \<open>
  Claim C6. On a rectangular frame with one \<open>Grade\<close> column in which some grade, once
  made numeric, is positive, the standardisation returns a frame. Its rows are the rows
  whose grade is not missing, in their order, each with its grade divided by the largest
  grade \<open>m\<close> and multiplied by 100. Every grade of the result is at most 100 and one of
  them is 100: the maximum of the result is 100.
\<close>

theorem standardise_grade_max:
  assumes g: "positions ''Grade'' (columns df) = [j]"
    and rect: "rectangular df"
    and pos: "list_ex (\<lambda>r. 0 < grade_value (to_numeric num (r ! j))) (rows df)"
  shows "\<exists>out m. standardise_grade num df = Inr out
     \<and> columns out = columns df
     \<and> 0 < m
     \<and> rows out =
         map (\<lambda>r. r[j := Num (grade_value (to_numeric num (r ! j)) / m * 100)])
           (filter (\<lambda>r. to_numeric num (r ! j) \<noteq> NaN) (rows df))
     \<and> (\<forall>r\<in>set (rows out). \<exists>x. r ! j = Num x \<and> x \<le> 100)
     \<and> (\<exists>r\<in>set (rows out). r ! j = Num 100)"
proof -
  define v where "v = (\<lambda>r::cell list. grade_value (to_numeric num (r ! j)))"
  define nn where "nn = filter (\<lambda>r. to_numeric num (r ! j) \<noteq> NaN) (rows df)"
  define df1 where "df1 = map_column j (to_numeric num) df"
  define df2 where "df2 = df1\<lparr>rows := filter (\<lambda>r. r ! j \<noteq> NaN) (rows df1)\<rparr>"
  define grades where "grades = map (\<lambda>r. grade_value (r ! j)) (rows df2)"
  define m where "m = Max (set grades)"
  note pj = positions_singleD [OF g]
  have jl: "j < length r" if "r \<in> set (rows df)" for r
    using rect that pj(1) by (auto simp: rectangular_def list_all_iff)
  have upd: "(r[j := c]) ! j = c" if "r \<in> set (rows df)" for r and c :: cell
    using jl [OF that] by simp
  have r2: "rows df2 = map (\<lambda>r. r[j := to_numeric num (r ! j)]) nn"
  proof -
    have "rows df2 = filter (\<lambda>r. r ! j \<noteq> NaN) (map (\<lambda>r. r[j := to_numeric num (r ! j)]) (rows df))"
      by (simp add: df2_def df1_def map_column_def)
    also have "\<dots> = map (\<lambda>r. r[j := to_numeric num (r ! j)])
            (filter (\<lambda>r. (r[j := to_numeric num (r ! j)]) ! j \<noteq> NaN) (rows df))"
      by (simp only: filter_map comp_def)
    also have "filter (\<lambda>r. (r[j := to_numeric num (r ! j)]) ! j \<noteq> NaN) (rows df) = nn"
      unfolding nn_def by (rule filter_cong) (simp_all add: upd)
    finally show ?thesis .
  qed
  have nnsub: "set nn \<subseteq> set (rows df)" by (auto simp: nn_def)
  have nnv: "to_numeric num (r ! j) = Num (v r)" if "r \<in> set nn" for r
    unfolding v_def by (rule to_numeric_value) (use that in \<open>simp add: nn_def\<close>)
  have gr: "grades = map v nn"
  proof -
    have "grade_value ((r[j := to_numeric num (r ! j)]) ! j) = v r" if "r \<in> set nn" for r
      using that nnsub upd [of r] by (auto simp: v_def)
    then show ?thesis by (simp add: grades_def r2 comp_def cong: map_cong)
  qed
  from pos obtain r0 where r0: "r0 \<in> set (rows df)" "0 < v r0"
    by (auto simp: list_ex_iff v_def)
  have "to_numeric num (r0 ! j) \<noteq> NaN"
    using r0(2) by (auto simp: v_def grade_value_def)
  with r0 have r0n: "r0 \<in> set nn" by (simp add: nn_def)
  then have ne: "grades \<noteq> []" by (auto simp: gr)
  have fin: "finite (set grades)" by simp
  have "v r0 \<in> set grades" using r0n by (simp add: gr)
  then have "v r0 \<le> m" unfolding m_def by (intro Max_ge) simp_all
  with r0(2) have mpos: "0 < m" by simp
  have mle: "v r \<le> m" if "r \<in> set nn" for r
  proof -
    have "v r \<in> set grades" using that by (simp add: gr)
    then show ?thesis unfolding m_def by (intro Max_ge) simp_all
  qed
  have "m \<in> set grades" unfolding m_def using ne by (intro Max_in) simp_all
  then obtain rm where rm: "rm \<in> set nn" "v rm = m" by (auto simp: gr)
  define out where "out = map_column j (scale_cell m) df2"
  have ev: "standardise_grade num df = Inr out"
    using g ne mpos
    by (simp add: standardise_grade_def Let_def out_def m_def grades_def df2_def df1_def)
  have ro: "rows out = map (\<lambda>r. r[j := Num (v r / m * 100)]) nn"
  proof -
    have "(r[j := to_numeric num (r ! j)])[j := scale_cell m ((r[j := to_numeric num (r ! j)]) ! j)]
        = r[j := Num (v r / m * 100)]" if "r \<in> set nn" for r
      using that nnsub upd [of r] nnv [OF that] by (auto simp: scale_cell_def)
    then show ?thesis by (simp add: out_def map_column_def r2 comp_def cong: map_cong)
  qed
  have co: "columns out = columns df"
    by (simp add: out_def map_column_def df2_def df1_def)
  have le: "\<exists>x. r ! j = Num x \<and> x \<le> 100" if "r \<in> set (rows out)" for r
  proof -
    from that ro obtain r' where r': "r' \<in> set nn" "r = r'[j := Num (v r' / m * 100)]" by auto
    have "r ! j = Num (v r' / m * 100)" using r' nnsub upd [of r'] by auto
    moreover have "v r' / m * 100 \<le> 100" using mle [OF r'(1)] mpos by (simp add: field_simps)
    ultimately show ?thesis by blast
  qed
  have top: "\<exists>r\<in>set (rows out). r ! j = Num 100"
  proof -
    have "rm[j := Num (v rm / m * 100)] \<in> set (rows out)" using rm(1) ro by auto
    moreover have "(rm[j := Num (v rm / m * 100)]) ! j = Num 100"
      using rm nnsub upd [of rm] mpos by auto
    ultimately show ?thesis by blast
  qed
  have "standardise_grade num df = Inr out
     \<and> columns out = columns df
     \<and> 0 < m
     \<and> rows out =
         map (\<lambda>r. r[j := Num (grade_value (to_numeric num (r ! j)) / m * 100)])
           (filter (\<lambda>r. to_numeric num (r ! j) \<noteq> NaN) (rows df))
     \<and> (\<forall>r\<in>set (rows out). \<exists>x. r ! j = Num x \<and> x \<le> 100)
     \<and> (\<exists>r\<in>set (rows out). r ! j = Num 100)"
    using ev co mpos ro le top by (simp add: v_def nn_def)
  then show ?thesis by blast
qed

theorem standardise_grade_max_witness:
  "positions ''Grade'' (columns raw_grades_frame) = [1]
   \<and> rectangular raw_grades_frame
   \<and> list_ex (\<lambda>r. 0 < grade_value (to_numeric parse_decimal (r ! 1))) (rows raw_grades_frame)
   \<and> standardise_grade parse_decimal raw_grades_frame =
       Inr \<lparr>columns = [''ResearchId'', ''Grade''], rows = [[Num 1, Num 50], [Num 3, Num 100]]\<rparr>
   \<and> standardise_grade parse_decimal standardise_test_frame =
       Inr \<lparr>columns = [''Grade''], rows = [[Num 50], [Num 100], [Num 75]]\<rparr>
   \<and> (\<exists>out m. standardise_grade parse_decimal raw_grades_frame = Inr out
     \<and> columns out = columns raw_grades_frame
     \<and> 0 < m
     \<and> rows out =
         map (\<lambda>r. r[1 := Num (grade_value (to_numeric parse_decimal (r ! 1)) / m * 100)])
           (filter (\<lambda>r. to_numeric parse_decimal (r ! 1) \<noteq> NaN) (rows raw_grades_frame))
     \<and> (\<forall>r\<in>set (rows out). \<exists>x. r ! 1 = Num x \<and> x \<le> 100)
     \<and> (\<exists>r\<in>set (rows out). r ! 1 = Num 100))"
proof -
  have g: "positions ''Grade'' (columns raw_grades_frame) = [1]" by code_simp
  have r: "rectangular raw_grades_frame" by code_simp
  have p: "list_ex (\<lambda>r. 0 < grade_value (to_numeric parse_decimal (r ! 1))) (rows raw_grades_frame)"
    by code_simp
  have ev: "standardise_grade parse_decimal raw_grades_frame =
       Inr \<lparr>columns = [''ResearchId'', ''Grade''], rows = [[Num 1, Num 50], [Num 3, Num 100]]\<rparr>"
    by code_simp
  have ev': "standardise_grade parse_decimal standardise_test_frame =
       Inr \<lparr>columns = [''Grade''], rows = [[Num 50], [Num 100], [Num 75]]\<rparr>"
    by code_simp
  note th = standardise_grade_max [OF g r p]
  show ?thesis using g r p ev ev' th by (intro conjI) assumption+
qed

section \<open>The grade and the average\<close>


lemma sql_avg_map:
  assumes "xs \<noteq> []" and "\<forall>x\<in>set xs. f x \<noteq> None"
  shows "sql_avg (map f xs) = Some (sum_list (map (\<lambda>x. the (f x)) xs) / real (length xs))"
proof -
  from assms(2) have "filter (\<lambda>v. v \<noteq> None) (map f xs) = map f xs"
    by (simp add: filter_id_conv)
  with assms(1) show ?thesis by (simp add: sql_avg_def Let_def comp_def)
qed

text \<open>
  Claim C8, as amended. For a table that has the columns \<open>ResearchId\<close> and \<open>q_column\<close>:
  when no record matches the identifier the result is \<open>(None, None)\<close>; when the first
  matching record holds a number in the column, the result is that number together with
  the \<^verbatim>\<open>AVG\<close> of the column; when it holds \<^verbatim>\<open>NULL\<close>, \<^verbatim>\<open>TypeError\<close> is raised. The
  \<^verbatim>\<open>AVG\<close> is the arithmetic mean over all the records when the column holds no \<^verbatim>\<open>NULL\<close>.
\<close>

theorem get_column_grade_and_average_spec:
  assumes t: "connection table_name = Some t"
    and sel: "select2 t ''ResearchId'' q_column = Inr selected"
  shows "(\<not> list_ex (\<lambda>(i, v). sql_eq_int i research_id) selected \<longrightarrow>
        get_column_grade_and_average py_float cast_real research_id table_name q_column connection
          = Inr (None, None))
     \<and> (\<forall>i x others.
          filter (\<lambda>(i, v). sql_eq_int i research_id) selected = (i, SNum x) # others \<longrightarrow>
          get_column_grade_and_average py_float cast_real research_id table_name q_column connection
            = Inr (Some x, sql_avg (map (\<lambda>(i, v). cast_as_real cast_real v) selected)))
     \<and> (\<forall>i others.
          filter (\<lambda>(i, v). sql_eq_int i research_id) selected = (i, SNull) # others \<longrightarrow>
          get_column_grade_and_average py_float cast_real research_id table_name q_column connection
            = Inl TypeError)
     \<and> (selected \<noteq> [] \<and> \<not> list_ex (\<lambda>(i, v). v = SNull) selected \<longrightarrow>
          sql_avg (map (\<lambda>(i, v). cast_as_real cast_real v) selected)
            = Some (sum_list (map (\<lambda>(i, v). the (cast_as_real cast_real v)) selected)
                    / real (length selected)))"
proof -
  let ?res = "get_column_grade_and_average py_float cast_real research_id table_name q_column connection"
  let ?m = "filter (\<lambda>(i, v). sql_eq_int i research_id) selected"
  have a: "?res = Inr (None, None)" if "\<not> list_ex (\<lambda>(i, v). sql_eq_int i research_id) selected"
  proof -
    from that have "?m = []" by (auto simp: filter_empty_conv list_ex_iff)
    then show ?thesis using t sel by (simp add: get_column_grade_and_average_def)
  qed
  have b: "?res = Inr (Some x, sql_avg (map (\<lambda>(i, v). cast_as_real cast_real v) selected))"
    if "?m = (i, SNum x) # others" for i x others
    using that t sel by (simp add: get_column_grade_and_average_def to_float_def Let_def)
  have c: "?res = Inl TypeError" if "?m = (i, SNull) # others" for i others
    using that t sel by (simp add: get_column_grade_and_average_def to_float_def Let_def)
  have d: "sql_avg (map (\<lambda>(i, v). cast_as_real cast_real v) selected)
            = Some (sum_list (map (\<lambda>(i, v). the (cast_as_real cast_real v)) selected)
                    / real (length selected))"
    if ne: "selected \<noteq> []" and nn: "\<not> list_ex (\<lambda>(i, v). v = SNull) selected"
  proof -
    have 2: "\<forall>p\<in>set selected. (\<lambda>(i, v). cast_as_real cast_real v) p \<noteq> None"
      using nn by (auto simp: list_ex_iff cast_as_real_def split: sqlval.splits)
    have 3: "(\<lambda>p. the ((\<lambda>(i, v). cast_as_real cast_real v) p))
        = (\<lambda>(i, v). the (cast_as_real cast_real v))"
      by (rule ext) (simp add: split_def)
    show ?thesis using sql_avg_map [OF ne 2] unfolding 3 .
  qed
  show ?thesis using a b c d by blast
qed

theorem get_column_grade_and_average_spec_witness:
  "performance_db ''TestTable1'' = Some
        \<lparr>col_names = [''ResearchId'', ''Q1'', ''Q2''],
         sql_rows = [[SNum 1, SNum 80, SNum 70], [SNum 2, SNum 90, SNum 85],
                     [SNum 3, SNum 75, SNum 65]]\<rparr>
   \<and> get_column_grade_and_average parse_decimal cast_decimal 1 ''TestTable1'' ''Q1'' performance_db
       = Inr (Some 80, Some (245 / 3))
   \<and> get_column_grade_and_average parse_decimal cast_decimal 4 ''TestTable1'' ''Q1'' performance_db
       = Inr (None, None)
   \<and> sql_avg (map (\<lambda>(i, v). cast_as_real cast_decimal v) [(SNum 1, SNum 80), (SNum 2, SNum 90), (SNum 3, SNum 75)])
       = Some (sum_list (map (\<lambda>(i, v). the (cast_as_real cast_decimal v))
                 [(SNum 1, SNum 80), (SNum 2, SNum 90), (SNum 3, SNum 75)])
               / real (length [(SNum 1, SNum 80), (SNum 2, SNum 90), (SNum 3, SNum (75::real))]))"
proof -
  let ?t = "\<lparr>col_names = [''ResearchId'', ''Q1'', ''Q2''],
         sql_rows = [[SNum 1, SNum 80, SNum 70], [SNum 2, SNum 90, SNum 85],
                     [SNum 3, SNum 75, SNum 65]]\<rparr>"
  let ?sel = "[(SNum 1, SNum 80), (SNum 2, SNum 90), (SNum 3, SNum 75)]"
  have t: "performance_db ''TestTable1'' = Some ?t" by (simp add: performance_db_def)
  have sel: "select2 ?t ''ResearchId'' ''Q1'' = Inr ?sel" by code_simp
  have m1: "filter (\<lambda>(i, v). sql_eq_int i 1) ?sel = (SNum 1, SNum 80) # []" by code_simp
  have m4: "\<not> list_ex (\<lambda>(i, v). sql_eq_int i 4) ?sel" by code_simp
  have ne: "?sel \<noteq> [] \<and> \<not> list_ex (\<lambda>(i, v). v = SNull) ?sel" by code_simp
  have av: "sql_avg (map (\<lambda>(i, v). cast_as_real cast_decimal v) ?sel) = Some (245 / 3)" by code_simp
  note th1 = get_column_grade_and_average_spec
    [where connection = performance_db and table_name = "''TestTable1''" and research_id = 1
       and py_float = parse_decimal and cast_real = cast_decimal, OF t sel]
  note th4 = get_column_grade_and_average_spec
    [where connection = performance_db and table_name = "''TestTable1''" and research_id = 4
       and py_float = parse_decimal and cast_real = cast_decimal, OF t sel]
  from th1 m1 av have r1: "get_column_grade_and_average parse_decimal cast_decimal 1 ''TestTable1'' ''Q1'' performance_db
       = Inr (Some 80, Some (245 / 3))" by metis
  from th4 m4 have r4: "get_column_grade_and_average parse_decimal cast_decimal 4 ''TestTable1'' ''Q1'' performance_db
       = Inr (None, None)" by blast
  from th1 ne have r5: "sql_avg (map (\<lambda>(i, v). cast_as_real cast_decimal v) ?sel)
       = Some (sum_list (map (\<lambda>(i, v). the (cast_as_real cast_decimal v)) ?sel)
               / real (length ?sel))" by blast
  show ?thesis using t r1 r4 r5 by (intro conjI) assumption+
qed

text \<open>
  The claim as stated fails: a record matches the identifier 1, and the call returns
  neither \<open>(None, None)\<close> nor the record's value with the mean, it raises.
\<close>

theorem null_score_counterexample:
  "get_column_grade_and_average parse_decimal cast_decimal 1 ''TestTable1'' ''Q1'' null_score_db
     = Inl TypeError
   \<and> list_ex (\<lambda>r. sql_eq_int (sql_cell r 0) 1) (sql_rows (the (null_score_db ''TestTable1'')))"
  by code_simp

section \<open>The consolidated grades\<close>


lemma those_map_Some: "those (map Some xs) = Some xs"
  by (induction xs) auto

lemma collect_length: "collect xs = Inr ys \<Longrightarrow> length ys = length xs"
  by (induction xs arbitrary: ys) (auto split: sum.splits)

lemma matches_distinct:
  assumes "distinct (map fst t)"
  shows "filter (\<lambda>(j, g). sql_eq i j) t = []
         \<or> (\<exists>g. filter (\<lambda>(j, g). sql_eq i j) t = [(i, g)])"
  using assms
proof (induction t)
  case Nil
  then show ?case by simp
next
  case (Cons p t)
  obtain j g where p: "p = (j, g)" by (cases p)
  from Cons.prems p have d: "distinct (map fst t)" and nj: "j \<notin> fst ` set t" by auto
  show ?case
  proof (cases "sql_eq i j")
    case True
    then have ij: "j = i" by (simp add: sql_eq_def)
    have "filter (\<lambda>(j, g). sql_eq i j) t = []"
      using nj ij by (auto simp: filter_empty_conv sql_eq_def image_iff)
    with True p ij show ?thesis by simp
  next
    case False
    with Cons.IH [OF d] p show ?thesis by simp
  qed
qed

lemma left_join_single:
  assumes "distinct (map fst t)"
  shows "left_join acc t = map (\<lambda>(i, gs). (i, gs @ [joined_grade i t])) acc"
proof -
  have "(case filter (\<lambda>(j, g). sql_eq i j) t of
          [] \<Rightarrow> [(i, gs @ [SNull])]
        | ms \<Rightarrow> map (\<lambda>(j, g). (i, gs @ [g])) ms) = [(i, gs @ [joined_grade i t])]" for i gs
    using matches_distinct [OF assms, of i] by (auto simp: joined_grade_def)
  then show ?thesis by (simp add: left_join_def split_def)
qed

lemma foldl_left_join:
  assumes "\<forall>t\<in>set ts. distinct (map fst t)"
  shows "foldl left_join acc ts = map (\<lambda>(i, gs). (i, gs @ map (joined_grade i) ts)) acc"
  using assms
proof (induction ts arbitrary: acc)
  case Nil
  then show ?case by (simp add: split_def)
next
  case (Cons t ts)
  then have d: "distinct (map fst t)" and r: "\<forall>t\<in>set ts. distinct (map fst t)" by auto
  show ?case
    by (simp add: left_join_single [OF d] Cons.IH [OF r] split_def comp_def)
qed

lemma joined_grade_present:
  assumes "distinct (map fst t)" and "i \<noteq> SNull" and "(i, g) \<in> set t"
  shows "joined_grade i t = g"
proof -
  have m: "(i, g) \<in> set (filter (\<lambda>(j, g). sql_eq i j) t)"
    using assms(2,3) by (simp add: sql_eq_def)
  from matches_distinct [OF assms(1), of i] show ?thesis
  proof
    assume "filter (\<lambda>(j, g). sql_eq i j) t = []"
    with m show ?thesis by simp
  next
    assume "\<exists>g. filter (\<lambda>(j, g). sql_eq i j) t = [(i, g)]"
    then obtain g' where f: "filter (\<lambda>(j, g). sql_eq i j) t = [(i, g')]" by blast
    with m have "g = g'" by simp
    with f show ?thesis by (simp add: joined_grade_def)
  qed
qed

lemma joined_grade_absent:
  assumes "i = SNull \<or> i \<notin> fst ` set t"
  shows "joined_grade i t = SNull"
proof -
  have "filter (\<lambda>(j, g). sql_eq i j) t = []"
    using assms by (auto simp: filter_empty_conv sql_eq_def image_iff)
  then show ?thesis by (simp add: joined_grade_def)
qed

lemma joined_grade_null_iff:
  assumes "distinct (map fst t)"
  shows "joined_grade i t = SNull \<longleftrightarrow> i = SNull \<or> i \<notin> fst ` set t \<or> (i, SNull) \<in> set t"
proof (cases "i = SNull \<or> i \<notin> fst ` set t")
  case True
  then show ?thesis using joined_grade_absent [OF True] by blast
next
  case False
  then obtain g where g: "(i, g) \<in> set t" and n: "i \<noteq> SNull" by auto
  have jg: "joined_grade i t = g" by (rule joined_grade_present [OF assms n g])
  have "(i, SNull) \<in> set t \<longleftrightarrow> g = SNull"
  proof
    assume "(i, SNull) \<in> set t"
    from joined_grade_present [OF assms n this] jg show "g = SNull" by simp
  next
    assume "g = SNull"
    with g show "(i, SNull) \<in> set t" by simp
  qed
  with False jg show ?thesis by simp
qed

text \<open>
  Claim C4, as amended. When the six tables exist, hold the columns \<open>ResearchId\<close> and
  \<open>Grade\<close>, and have at most one row for each identifier, the consolidated frame has one
  row for each identifier that occurs in some table, and no other. Its cell for an
  identifier and a test is the grade of the identifier's row in the table of that test.
  The cell is \<^verbatim>\<open>NULL\<close> exactly when the identifier has no row in that table, or its row
  there has no grade, or the identifier itself is \<^verbatim>\<open>NULL\<close>.
\<close>

theorem create_dataframe_spec:
  assumes db: "map db test_names = map Some ts"
    and sel: "collect (map (\<lambda>t. select2 t ''ResearchId'' ''Grade'') ts) = Inr tables"
    and one: "list_all (\<lambda>t. distinct (map fst t)) tables"
  shows "\<exists>out. create_dataframe db = Inr out
     \<and> grade_labels out = [''Grade_Test1'', ''Grade_Test2'', ''Grade_Test3'', ''Grade_Test4'',
                            ''Grade_Mocktest'', ''Grade_Sumtest'']
     \<and> length tables = 6
     \<and> distinct (map fst (entries out))
     \<and> set (map fst (entries out)) = (\<Union>t\<in>set tables. fst ` set t)
     \<and> (\<forall>(i, gs)\<in>set (entries out). length gs = 6
          \<and> (\<forall>k<6.
                (gs ! k = SNull \<longleftrightarrow>
                   i = SNull \<or> i \<notin> fst ` set (tables ! k) \<or> (i, SNull) \<in> set (tables ! k))
                \<and> (\<forall>g. i \<noteq> SNull \<and> (i, g) \<in> set (tables ! k) \<longrightarrow> gs ! k = g)))"
proof -
  define ids where "ids = research_ids tables"
  define out where "out = \<lparr>index_name = ''ResearchId'',
                    grade_labels = map (\<lambda>n. ''Grade_'' @ n) test_names,
                    entries = foldl left_join (map (\<lambda>i. (i, [])) ids) tables\<rparr>"
  have th: "those (map db test_names) = Some ts" by (simp add: db those_map_Some)
  have ev: "create_dataframe db = Inr out"
    by (simp add: create_dataframe_def th sel out_def ids_def)
  have dd: "\<forall>t\<in>set tables. distinct (map fst t)" using one by (simp add: list_all_iff)
  have en: "entries out = map (\<lambda>i. (i, map (joined_grade i) tables)) ids"
    by (simp add: out_def foldl_left_join [OF dd] comp_def)
  have "length ts = length test_names" using db by (metis length_map)
  then have len: "length tables = 6"
    using collect_length [OF sel] by (simp add: test_names_def)
  have lab: "grade_labels out = [''Grade_Test1'', ''Grade_Test2'', ''Grade_Test3'', ''Grade_Test4'',
                            ''Grade_Mocktest'', ''Grade_Sumtest'']"
    by (simp add: out_def test_names_def)
  have fs: "map fst (entries out) = ids" by (simp add: en comp_def)
  have di: "distinct (map fst (entries out))" by (simp add: fs ids_def research_ids_def)
  have se: "set (map fst (entries out)) = (\<Union>t\<in>set tables. fst ` set t)"
    by (simp add: fs ids_def research_ids_def)
  have cells: "length gs = 6
          \<and> (\<forall>k<6.
                (gs ! k = SNull \<longleftrightarrow>
                   i = SNull \<or> i \<notin> fst ` set (tables ! k) \<or> (i, SNull) \<in> set (tables ! k))
                \<and> (\<forall>g. i \<noteq> SNull \<and> (i, g) \<in> set (tables ! k) \<longrightarrow> gs ! k = g))"
    if "(i, gs) \<in> set (entries out)" for i gs
  proof -
    from that have gs: "gs = map (joined_grade i) tables" by (auto simp: en)
    have "(gs ! k = SNull \<longleftrightarrow>
                   i = SNull \<or> i \<notin> fst ` set (tables ! k) \<or> (i, SNull) \<in> set (tables ! k))
                \<and> (\<forall>g. i \<noteq> SNull \<and> (i, g) \<in> set (tables ! k) \<longrightarrow> gs ! k = g)"
      if k: "k < 6" for k
    proof -
      have kt: "k < length tables" using k len by simp
      then have d: "distinct (map fst (tables ! k))" using dd by simp
      have g: "gs ! k = joined_grade i (tables ! k)" using kt by (simp add: gs)
      show ?thesis
        unfolding g using joined_grade_null_iff [OF d, of i] joined_grade_present [OF d, of i]
        by blast
    qed
    then show ?thesis using len by (simp add: gs)
  qed
  have cells': "\<forall>(i, gs)\<in>set (entries out). length gs = 6
          \<and> (\<forall>k<6.
                (gs ! k = SNull \<longleftrightarrow>
                   i = SNull \<or> i \<notin> fst ` set (tables ! k) \<or> (i, SNull) \<in> set (tables ! k))
                \<and> (\<forall>g. i \<noteq> SNull \<and> (i, g) \<in> set (tables ! k) \<longrightarrow> gs ! k = g))"
  proof (rule ballI)
    fix p assume p: "p \<in> set (entries out)"
    obtain i gs where e: "p = (i, gs)" by (cases p)
    show "case p of (i, gs) \<Rightarrow> length gs = 6
          \<and> (\<forall>k<6.
                (gs ! k = SNull \<longleftrightarrow>
                   i = SNull \<or> i \<notin> fst ` set (tables ! k) \<or> (i, SNull) \<in> set (tables ! k))
                \<and> (\<forall>g. i \<noteq> SNull \<and> (i, g) \<in> set (tables ! k) \<longrightarrow> gs ! k = g))"
      unfolding e prod.case using p e by (intro cells) simp
  qed
  show ?thesis by (intro exI [of _ out] conjI ev lab len di se cells')
qed


theorem create_dataframe_spec_witness:
  "map partial_db test_names = map Some partial_tables
   \<and> collect (map (\<lambda>t. select2 t ''ResearchId'' ''Grade'') partial_tables) = Inr partial_pairs
   \<and> list_all (\<lambda>t. distinct (map fst t)) partial_pairs
   \<and> create_dataframe partial_db =
       Inr \<lparr>index_name = ''ResearchId'',
            grade_labels = [''Grade_Test1'', ''Grade_Test2'', ''Grade_Test3'', ''Grade_Test4'',
                            ''Grade_Mocktest'', ''Grade_Sumtest''],
            entries = [(SNum 2, [SNum 55, SNum 30, SNull, SNull, SNull, SNull]),
                       (SNum 1, [SNum 40, SNull, SNull, SNum 20, SNull, SNull]),
                       (SNum 3, [SNull, SNum 45, SNull, SNull, SNull, SNum 90])]\<rparr>
   \<and> (\<exists>out. create_dataframe partial_db = Inr out
     \<and> grade_labels out = [''Grade_Test1'', ''Grade_Test2'', ''Grade_Test3'', ''Grade_Test4'',
                            ''Grade_Mocktest'', ''Grade_Sumtest'']
     \<and> length partial_pairs = 6
     \<and> distinct (map fst (entries out))
     \<and> set (map fst (entries out)) = (\<Union>t\<in>set partial_pairs. fst ` set t)
     \<and> (\<forall>(i, gs)\<in>set (entries out). length gs = 6
          \<and> (\<forall>k<6.
                (gs ! k = SNull \<longleftrightarrow>
                   i = SNull \<or> i \<notin> fst ` set (partial_pairs ! k)
                     \<or> (i, SNull) \<in> set (partial_pairs ! k))
                \<and> (\<forall>g. i \<noteq> SNull \<and> (i, g) \<in> set (partial_pairs ! k) \<longrightarrow> gs ! k = g))))"
proof -
  have db: "map partial_db test_names = map Some partial_tables" by code_simp
  have sel: "collect (map (\<lambda>t. select2 t ''ResearchId'' ''Grade'') partial_tables) = Inr partial_pairs"
    by code_simp
  have one: "list_all (\<lambda>t. distinct (map fst t)) partial_pairs" by code_simp
  have ev: "create_dataframe partial_db =
       Inr \<lparr>index_name = ''ResearchId'',
            grade_labels = [''Grade_Test1'', ''Grade_Test2'', ''Grade_Test3'', ''Grade_Test4'',
                            ''Grade_Mocktest'', ''Grade_Sumtest''],
            entries = [(SNum 2, [SNum 55, SNum 30, SNull, SNull, SNull, SNull]),
                       (SNum 1, [SNum 40, SNull, SNull, SNum 20, SNull, SNull]),
                       (SNum 3, [SNull, SNum 45, SNull, SNull, SNull, SNum 90])]\<rparr>"
    by code_simp
  note th = create_dataframe_spec [OF db sel one]
  show ?thesis using db sel one ev th by (intro conjI) assumption+
qed

text \<open>
  The claim as stated fails: student 1 has a row in \<open>Test1\<close>, without a grade, and the
  cell \<open>Grade_Test1\<close> of student 1 is \<^verbatim>\<open>NULL\<close>.
\<close>

theorem null_grade_counterexample:
  "select2 (the (null_grade_db ''Test1'')) ''ResearchId'' ''Grade''
     = Inr [(SNum 1, SNull), (SNum 2, SNum 55)]
   \<and> create_dataframe null_grade_db =
       Inr \<lparr>index_name = ''ResearchId'',
            grade_labels = [''Grade_Test1'', ''Grade_Test2'', ''Grade_Test3'', ''Grade_Test4'',
                            ''Grade_Mocktest'', ''Grade_Sumtest''],
            entries = [(SNum 2, [SNum 55, SNull, SNull, SNull, SNull, SNull]),
                       (SNum 1, [SNull, SNum 70, SNull, SNull, SNull, SNull])]\<rparr>"
  by code_simp

end
